theory Spec2Isabelle
  imports Main "HOL-Library.Word"
begin

section \<open>Data model (lib/types.ts)\<close>

text \<open>
  Timestamps are ISO strings in the source and are only ever read through
  \<^verbatim>\<open>new Date(s).getTime()\<close>; the model keeps the milliseconds since the epoch.
  \<^verbatim>\<open>updatedAt\<close> is read as \<^verbatim>\<open>h.updatedAt || h.createdAt\<close> everywhere, so it is
  an option: \<open>None\<close> stands for an absent or empty value.
\<close>

type_synonym timestamp = int

record HabitItem =
  id_h :: string
  text_h :: string
  completed :: bool
  hidden :: bool
  createdAt :: timestamp
  updatedAt :: "timestamp option"

datatype Theme = Light | Dark | System

record AppSettings =
  theme :: Theme
  autoSync :: bool
  syncInterval :: int
  encryptionEnabled :: bool

record HabitsData =
  version :: string
  lastSync :: timestamp
  lastResetDate :: string
  habits :: "HabitItem list"
  settings :: AppSettings

datatype ConflictType = Modify | Delete | Create

record ConflictInfo =
  id_c :: string
  type_c :: ConflictType
  local_c :: "HabitItem option"
  remote_c :: "HabitItem option"
  timestamp_local :: timestamp
  timestamp_remote :: timestamp

datatype ConflictResolution = UseLocal | UseRemote | UseMerge | UseManual

text \<open>One entry of the \<^verbatim>\<open>deleted_habits\<close> array kept in localStorage.\<close>

record DeletedRecord =
  id_d :: string
  deletedAt :: timestamp

section \<open>JavaScript \<^verbatim>\<open>Map\<close> and \<^verbatim>\<open>Set\<close>\<close>

text \<open>
  A \<^verbatim>\<open>Map\<close> iterates in the order in which its keys were first inserted and
  \<^verbatim>\<open>set\<close> on a key that is present replaces the value in place. It is modelled
  as an association list with that order; a \<^verbatim>\<open>Set\<close> as the list of its members
  in insertion order.
\<close>

fun Map_set :: "('k \<times> 'v) list \<Rightarrow> 'k \<Rightarrow> 'v \<Rightarrow> ('k \<times> 'v) list" where
  "Map_set [] k v = [(k, v)]"
| "Map_set (e # m) k v = (if fst e = k then (k, v) # m else e # Map_set m k v)"

definition Map_new :: "('k \<times> 'v) list \<Rightarrow> ('k \<times> 'v) list" where
  "Map_new entries = foldl (\<lambda>m e. Map_set m (fst e) (snd e)) [] entries"

definition Map_get :: "('k \<times> 'v) list \<Rightarrow> 'k \<Rightarrow> 'v option" where
  "Map_get m k = map_of m k"

definition Map_delete :: "('k \<times> 'v) list \<Rightarrow> 'k \<Rightarrow> ('k \<times> 'v) list" where
  "Map_delete m k = filter (\<lambda>e. fst e \<noteq> k) m"

definition Map_keys :: "('k \<times> 'v) list \<Rightarrow> 'k list" where
  "Map_keys m = map fst m"

definition Map_values :: "('k \<times> 'v) list \<Rightarrow> 'v list" where
  "Map_values m = map snd m"

definition Set_add :: "'a list \<Rightarrow> 'a \<Rightarrow> 'a list" where
  "Set_add s x = (if x \<in> set s then s else s @ [x])"

definition Set_new :: "'a list \<Rightarrow> 'a list" where
  "Set_new xs = foldl Set_add [] xs"

text \<open>\<^verbatim>\<open>new Map(data.habits.map(h => [h.id, h]))\<close>\<close>

definition habitMap :: "HabitsData \<Rightarrow> (string \<times> HabitItem) list" where
  "habitMap d = Map_new (map (\<lambda>h. (id_h h, h)) (habits d))"

text \<open>\<^verbatim>\<open>new Set([...localHabits.keys(), ...remoteHabits.keys()])\<close>\<close>

definition allIds :: "HabitsData \<Rightarrow> HabitsData \<Rightarrow> string list" where
  "allIds l r = Set_new (Map_keys (habitMap l) @ Map_keys (habitMap r))"

section \<open>Conflict detection (SyncManager.hasConflict, detectConflicts)\<close>

text \<open>\<^verbatim>\<open>new Date(h.updatedAt || h.createdAt).getTime()\<close>\<close>

definition habitTime :: "HabitItem \<Rightarrow> timestamp" where
  "habitTime h = (case updatedAt h of Some t \<Rightarrow> t | None \<Rightarrow> createdAt h)"

definition hasConflict :: "HabitItem \<Rightarrow> HabitItem \<Rightarrow> bool" where
  "hasConflict l r =
     (if text_h l \<noteq> text_h r then True
      else if completed l \<noteq> completed r then
        (let localTime = habitTime l; remoteTime = habitTime r;
             timeDiff = \<bar>localTime - remoteTime\<bar>
         in timeDiff < 60 * 60 * 1000)
      else False)"

text \<open>The body of the loop over \<^verbatim>\<open>allIds\<close>: the descriptor it pushes, if any.\<close>

definition conflictAt :: "HabitsData \<Rightarrow> HabitsData \<Rightarrow> string \<Rightarrow> ConflictInfo option" where
  "conflictAt l r i =
     (case (Map_get (habitMap l) i, Map_get (habitMap r) i) of
        (None, Some remoteHabit) \<Rightarrow> None
      | (Some localHabit, None) \<Rightarrow> None
      | (Some localHabit, Some remoteHabit) \<Rightarrow>
          (if hasConflict localHabit remoteHabit then
             Some \<lparr> id_c = i, type_c = Modify,
                    local_c = Some localHabit, remote_c = Some remoteHabit,
                    timestamp_local = habitTime localHabit,
                    timestamp_remote = habitTime remoteHabit \<rparr>
           else None)
      | (None, None) \<Rightarrow> None)"

definition detectConflicts :: "HabitsData \<Rightarrow> HabitsData \<Rightarrow> ConflictInfo list" where
  "detectConflicts l r = List.map_filter (conflictAt l r) (allIds l r)"

section \<open>Deletion tracking (the \<^verbatim>\<open>deleted_habits\<close> key of localStorage)\<close>

text \<open>
  The store holds \<open>None\<close> while the key is absent and the parsed array otherwise.
  The retention window is seven days in milliseconds.
\<close>

type_synonym DeletedStore = "DeletedRecord list option"

definition sevenDays :: int where
  "sevenDays = 7 * 24 * 60 * 60 * 1000"

definition getDeletedHabitsIds :: "DeletedStore \<Rightarrow> string set" where
  "getDeletedHabitsIds st =
     (case st of None \<Rightarrow> {} | Some data \<Rightarrow> set (map id_d data))"

definition wasRecentlyDeleted :: "DeletedStore \<Rightarrow> timestamp \<Rightarrow> string \<Rightarrow> bool" where
  "wasRecentlyDeleted st now i =
     (case st of None \<Rightarrow> False
      | Some data \<Rightarrow>
          (case find (\<lambda>item. id_d item = i) data of
             None \<Rightarrow> False
           | Some deletedItem \<Rightarrow>
               (let sevenDaysAgo = now - sevenDays in deletedAt deletedItem > sevenDaysAgo)))"

definition cleanupDeletedIds :: "DeletedStore \<Rightarrow> timestamp \<Rightarrow> DeletedStore" where
  "cleanupDeletedIds st now =
     (case st of None \<Rightarrow> None
      | Some data \<Rightarrow>
          (let sevenDaysAgo = now - sevenDays;
               validDeletes = filter (\<lambda>item. deletedAt item > sevenDaysAgo) data
           in if length validDeletes \<noteq> length data then Some validDeletes else Some data))"

definition markHabitAsDeleted :: "DeletedStore \<Rightarrow> timestamp \<Rightarrow> string \<Rightarrow> DeletedStore" where
  "markHabitAsDeleted st now i =
     (let data = (case st of None \<Rightarrow> [] | Some d \<Rightarrow> d) in
      if find (\<lambda>item. id_d item = i) data = None
      then Some (data @ [\<lparr> id_d = i, deletedAt = now \<rparr>])
      else st)"

section \<open>Merging (SyncManager.mergeData)\<close>

text \<open>
  The body of the loop over \<^verbatim>\<open>allIds\<close>: the record it pushes onto
  \<^verbatim>\<open>mergedHabits\<close>, if any. The set of deleted ids is read once, before the loop.
\<close>

definition mergeAt ::
  "DeletedStore \<Rightarrow> timestamp \<Rightarrow> HabitsData \<Rightarrow> HabitsData \<Rightarrow> string \<Rightarrow> HabitItem option" where
  "mergeAt st now l r i =
     (if i \<in> getDeletedHabitsIds st then None
      else
        (case (Map_get (habitMap l) i, Map_get (habitMap r) i) of
           (Some localHabit, Some remoteHabit) \<Rightarrow>
             Some (if habitTime localHabit \<ge> habitTime remoteHabit
                   then localHabit else remoteHabit)
         | (Some localHabit, None) \<Rightarrow> Some localHabit
         | (None, Some remoteHabit) \<Rightarrow>
             (if habitTime remoteHabit > lastSync l then Some remoteHabit
              else if \<not> wasRecentlyDeleted st now i then Some remoteHabit
              else None)
         | (None, None) \<Rightarrow> None))"

text \<open>
  \<^verbatim>\<open>Array.prototype.sort\<close> is stable; so is \<open>sort_key\<close>. The function returns the
  merged snapshot together with the deletion store as \<^verbatim>\<open>cleanupDeletedIds\<close>, which
  runs after the loop, leaves it. The clock is read once per pass.
\<close>

definition mergeData ::
  "DeletedStore \<Rightarrow> timestamp \<Rightarrow> HabitsData \<Rightarrow> HabitsData \<Rightarrow> HabitsData \<times> DeletedStore" where
  "mergeData st now l r =
     (let mergedHabits = List.map_filter (mergeAt st now l r) (allIds l r);
          st' = cleanupDeletedIds st now;
          newerMeta = (if lastSync l \<ge> lastSync r then l else r)
      in (newerMeta \<lparr> habits := sort_key createdAt mergedHabits, lastSync := now \<rparr>, st'))"


section \<open>Sync state, results and errors (lib/types.ts, SyncManager)\<close>

datatype SyncStatus = Idle | Syncing | Error | Offline | Conflict | Success

datatype SyncErrorType = NetworkError | ConflictError | AuthError | StorageError

text \<open>
  The message strings of the thrown errors and of \<^verbatim>\<open>SyncResult.error\<close>; only their
  identity matters here.
\<close>

datatype Message =
    NotAuthenticated
  | NetworkUnavailable
  | UserOrRepositoryNotFound
  | FailedToSaveLocalData
  | FailedToSaveRemoteData
  | ConflictsNeedResolution nat
  | ResolutionCountMismatch

text \<open>
  What a method throws: a \<^verbatim>\<open>SyncError\<close> with its type, or a plain \<^verbatim>\<open>Error\<close>.
\<close>

datatype Thrown = SyncError Message SyncErrorType | PlainError Message

record SyncConfig =
  autoSync_cfg :: bool
  syncInterval_cfg :: int
  retryAttempts :: nat
  retryDelay :: int

record SyncState =
  status :: SyncStatus
  lastSyncTime :: "timestamp option"
  lastError :: "Message option"
  pendingChanges :: bool
  conflictCount :: nat

record SyncResult =
  success :: bool
  conflicts :: "ConflictInfo list"
  lastSyncTime_r :: timestamp
  syncedRecords :: nat
  error_r :: "Message option"

text \<open>One entry of the \<^verbatim>\<open>dailyTodos\<close> array kept in localStorage.\<close>

record Todo =
  id_t :: string
  text_t :: string
  completed_t :: bool
  hidden_t :: "bool option"
  createdAt_t :: timestamp

section \<open>The world a sync cycle runs in\<close>

text \<open>
  Where \<^verbatim>\<open>saveLocalData\<close> fails, if it does: at the first or the second
  \<^verbatim>\<open>localStorage.setItem\<close>, or at \<^verbatim>\<open>secureStorage.setItem\<close>.
\<close>

datatype LocalFault = NoFault | DailyTodosFails | LastResetDateFails | SecureStorageFails

text \<open>
  The remote object \<^verbatim>\<open>data.json\<close> is a snapshot together with the blob sha the
  contents API reports for it. \<open>racing\<close> scripts the other replicas: its head is
  consumed by every call of \<^verbatim>\<open>saveRemoteData\<close>, between the request that reads the
  current sha and the PUT; \<open>Some f\<close> means that another replica has written \<open>f\<close> in
  between. The three requests of a cycle can fail for reasons of their own (the network,
  a rate limit, content that does not decode or parse): \<open>fetchFails\<close> for the read of
  the snapshot in \<^verbatim>\<open>getRemoteData\<close>, \<open>shaReadFails\<close> for the read of the current sha
  and \<open>putFails\<close> for the PUT in \<^verbatim>\<open>saveRemoteData\<close>. \<open>localSettlesFirst\<close> says
  which of two failures is the earlier one when both \<^verbatim>\<open>secureStorage.setItem\<close> and a
  request of \<^verbatim>\<open>saveRemoteData\<close> fail.

  \<open>clock\<close>, \<open>clockFetched\<close> and \<open>clockSaved\<close> are the values of \<^verbatim>\<open>new Date()\<close> when
  the cycle starts, when the read of the remote snapshot has returned and when the two
  writes have settled; \<open>today\<close> is the \<^verbatim>\<open>toDateString()\<close> of the day.
  \<open>isAuthenticated\<close> is \<^verbatim>\<open>authState.isAuthenticated\<close> of \<^verbatim>\<open>authManager\<close>, and
  \<open>userAndRepo\<close> holds when it knows both the user and the repository.
  \<open>dailyTodos\<close> is \<open>None\<close> when the key is absent or empty or its value does not parse
  as an array.
\<close>

type_synonym RemoteFile = "HabitsData \<times> nat"

record World =
  isAuthenticated :: bool
  userAndRepo :: bool
  isOnline :: bool
  config :: SyncConfig
  clock :: timestamp
  clockFetched :: timestamp
  clockSaved :: timestamp
  today :: string
  dailyTodos :: "Todo list option"
  lastResetDate_ls :: "string option"
  habits_data :: "HabitsData option"
  deleted_habits :: DeletedStore
  sync_state_ss :: "SyncState option"
  localFault :: LocalFault
  remoteFile :: "RemoteFile option"
  racing :: "RemoteFile option list"
  fetchFails :: bool
  shaReadFails :: bool
  putFails :: bool
  localSettlesFirst :: bool
  syncState :: SyncState

definition defaultConfig :: SyncConfig where
  "defaultConfig = \<lparr> autoSync_cfg = True, syncInterval_cfg = 5 * 60 * 1000,
     retryAttempts = 3, retryDelay = 2000 \<rparr>"

text \<open>
  \<^verbatim>\<open>getDefaultHabitsData\<close> (of SyncManager and of GitHubClient alike) stamps the
  snapshot with the time at which it is called.
\<close>

definition getDefaultHabitsData :: "World \<Rightarrow> timestamp \<Rightarrow> HabitsData" where
  "getDefaultHabitsData w now =
     \<lparr> version = ''1.0'', lastSync = now, lastResetDate = today w, habits = [],
       settings = \<lparr> theme = Light, autoSync = True, syncInterval = 300000,
                    encryptionEnabled = True \<rparr> \<rparr>"

text \<open>
  \<^verbatim>\<open>localStorage.getItem('lastResetDate') || new Date().toDateString()\<close>: the absent
  and the empty value give today's date.
\<close>

definition getLocalData :: "World \<Rightarrow> HabitsData" where
  "getLocalData w =
     (let lastResetDate' =
            (case lastResetDate_ls w of
               Some d \<Rightarrow> (if d = [] then today w else d)
             | None \<Rightarrow> today w) in
      case dailyTodos w of
        Some todos \<Rightarrow>
          \<lparr> version = ''1.0'', lastSync = clock w, lastResetDate = lastResetDate',
            habits = map (\<lambda>todo. \<lparr> id_h = id_t todo, text_h = text_t todo,
                        completed = completed_t todo,
                        hidden = (case hidden_t todo of Some b \<Rightarrow> b | None \<Rightarrow> False),
                        createdAt = createdAt_t todo,
                        updatedAt = Some (createdAt_t todo) \<rparr>) todos,
            settings = \<lparr> theme = Light, autoSync = autoSync_cfg (config w),
                         syncInterval = syncInterval_cfg (config w),
                         encryptionEnabled = True \<rparr> \<rparr>
      | None \<Rightarrow> getDefaultHabitsData w (clock w))"

text \<open>
  \<^verbatim>\<open>authManager.getClient()\<close> throws a plain \<^verbatim>\<open>Error\<close> when not authenticated, before
  the check of user and repository. Every failed read, the absent file included, is
  answered with the default snapshot, stamped when the read has returned.
\<close>

definition getRemoteData :: "World \<Rightarrow> Thrown + HabitsData" where
  "getRemoteData w =
     (if \<not> isAuthenticated w then Inl (PlainError NotAuthenticated)
      else if \<not> userAndRepo w then Inl (SyncError UserOrRepositoryNotFound AuthError)
      else if fetchFails w then Inr (getDefaultHabitsData w (clockFetched w))
      else case remoteFile w of
             Some (d, sha) \<Rightarrow> Inr d
           | None \<Rightarrow> Inr (getDefaultHabitsData w (clockFetched w)))"

text \<open>
  \<^verbatim>\<open>saveLocalData\<close> writes \<^verbatim>\<open>dailyTodos\<close>, \<^verbatim>\<open>lastResetDate\<close> and the encrypted snapshot,
  in this order, and turns the first failure into a \<^verbatim>\<open>SyncError\<close> of type
  \<^verbatim>\<open>'storage'\<close>; what was written before the failure stays.
\<close>

definition saveLocalData :: "World \<Rightarrow> HabitsData \<Rightarrow> World \<times> (Thrown + unit)" where
  "saveLocalData w d =
     (let failed = Inl (SyncError FailedToSaveLocalData StorageError);
          w1 = w \<lparr> dailyTodos := Some (map (\<lambda>habit. \<lparr> id_t = id_h habit,
                        text_t = text_h habit, completed_t = completed habit,
                        hidden_t = Some (hidden habit),
                        createdAt_t = createdAt habit \<rparr>) (habits d)) \<rparr>;
          w2 = w1 \<lparr> lastResetDate_ls := Some (lastResetDate d) \<rparr>;
          w3 = w2 \<lparr> habits_data := Some d \<rparr>
      in case localFault w of
           DailyTodosFails \<Rightarrow> (w, failed)
         | LastResetDateFails \<Rightarrow> (w1, failed)
         | SecureStorageFails \<Rightarrow> (w2, failed)
         | NoFault \<Rightarrow> (w3, Inr ()))"

text \<open>
  The contents API's PUT: a new file is created when no sha is sent, an existing file is
  replaced only when the sha sent is its current one, and the request is rejected
  otherwise. The result is the new remote file, \<open>None\<close> for a rejected request. The
  new file gets a sha that the old one did not have.
\<close>

definition remotePut :: "RemoteFile option \<Rightarrow> HabitsData \<Rightarrow> nat option \<Rightarrow> RemoteFile option" where
  "remotePut current d sha =
     (case current of
        None \<Rightarrow> (case sha of None \<Rightarrow> Some (d, 0) | Some s \<Rightarrow> None)
      | Some (d', s') \<Rightarrow> (if sha = Some s' then Some (d, Suc s') else None))"

text \<open>
  \<^verbatim>\<open>saveRemoteData\<close> reads the current sha itself (a failed read counts as no sha),
  then sends the PUT; whatever the PUT throws becomes a \<^verbatim>\<open>SyncError\<close> of type
  \<^verbatim>\<open>'network'\<close>.
\<close>

definition saveRemoteData :: "World \<Rightarrow> HabitsData \<Rightarrow> World \<times> (Thrown + unit)" where
  "saveRemoteData w d =
     (if \<not> isAuthenticated w then (w, Inl (PlainError NotAuthenticated))
      else if \<not> userAndRepo w then (w, Inl (SyncError UserOrRepositoryNotFound AuthError))
      else
        let currentSha = (if shaReadFails w then None
                          else case remoteFile w of Some (d', sha) \<Rightarrow> Some sha | None \<Rightarrow> None);
            w1 = (case racing w of
                    [] \<Rightarrow> w
                  | None # rest \<Rightarrow> w \<lparr> racing := rest \<rparr>
                  | Some f # rest \<Rightarrow> w \<lparr> remoteFile := Some f, racing := rest \<rparr>)
        in case (if putFails w then None else remotePut (remoteFile w1) d currentSha) of
             Some f \<Rightarrow> (w1 \<lparr> remoteFile := Some f \<rparr>, Inr ())
           | None \<Rightarrow> (w1, Inl (SyncError FailedToSaveRemoteData NetworkError)))"

text \<open>
  \<^verbatim>\<open>Promise.all([saveLocalData(d), saveRemoteData(d)])\<close> starts both writes and undoes
  neither when the other rejects; it rejects with the rejection that settles first. A
  \<^verbatim>\<open>localStorage.setItem\<close> that throws rejects the local write before the remote one has
  started. \<^verbatim>\<open>getClient()\<close> and the check of user and repository reject the remote write
  before \<^verbatim>\<open>secureStorage.setItem\<close> can have failed. Between a failure of
  \<^verbatim>\<open>secureStorage.setItem\<close> and a failed request, \<open>localSettlesFirst\<close> decides. The
  world returned is the one in which both writes have settled.
\<close>

definition saveBoth :: "World \<Rightarrow> HabitsData \<Rightarrow> World \<times> (Thrown + unit)" where
  "saveBoth w d =
     (case saveLocalData w d of
        (w1, localResult) \<Rightarrow>
          (case saveRemoteData w1 d of
             (w2, remoteResult) \<Rightarrow>
               (case localResult of
                  Inr u \<Rightarrow> (w2, remoteResult)
                | Inl e \<Rightarrow>
                    (case remoteResult of
                       Inr u \<Rightarrow> (w2, Inl e)
                     | Inl e' \<Rightarrow>
                         if localFault w \<noteq> SecureStorageFails then (w2, Inl e)
                         else if \<not> isAuthenticated w \<or> \<not> userAndRepo w then (w2, Inl e')
                         else if localSettlesFirst w then (w2, Inl e)
                         else (w2, Inl e')))))"

text \<open>\<^verbatim>\<open>saveSyncState\<close> swallows a failure of \<^verbatim>\<open>secureStorage.setItem\<close>.\<close>

definition saveSyncState :: "World \<Rightarrow> World" where
  "saveSyncState w =
     (if localFault w = SecureStorageFails then w
      else w \<lparr> sync_state_ss := Some (syncState w) \<rparr>)"

text \<open>The \<^verbatim>\<open>catch\<close> block of \<^verbatim>\<open>sync\<close>.\<close>

definition syncCatch :: "World \<Rightarrow> Thrown \<Rightarrow> World \<times> (Thrown + SyncResult)" where
  "syncCatch w e =
     (let errorMessage = (case e of SyncError m t \<Rightarrow> m | PlainError m \<Rightarrow> m);
          w' = w \<lparr> syncState := (syncState w) \<lparr> status := Error, lastError := Some errorMessage \<rparr> \<rparr>
      in case e of
           SyncError m t \<Rightarrow> (w', Inl e)
         | PlainError m \<Rightarrow> (w', Inl (SyncError errorMessage StorageError)))"

definition sync :: "World \<Rightarrow> World \<times> (Thrown + SyncResult)" where
  "sync w =
     (if \<not> isAuthenticated w then (w, Inl (SyncError NotAuthenticated AuthError))
      else if \<not> isOnline w then (w, Inl (SyncError NetworkUnavailable NetworkError))
      else
        let w1 = w \<lparr> syncState := (syncState w) \<lparr> status := Syncing, lastError := None \<rparr> \<rparr>;
            localData = getLocalData w1
        in case getRemoteData w1 of
             Inl e \<Rightarrow> syncCatch w1 e
           | Inr remoteData \<Rightarrow>
               let conflicts' = detectConflicts localData remoteData in
               if length conflicts' > 0 then
                 (w1 \<lparr> syncState := (syncState w1) \<lparr> status := Conflict,
                                          conflictCount := length conflicts' \<rparr> \<rparr>,
                  Inr \<lparr> success = False, conflicts = conflicts',
                        lastSyncTime_r = clockFetched w1, syncedRecords = 0,
                        error_r = Some (ConflictsNeedResolution (length conflicts')) \<rparr>)
               else
                 let (mergedData, st') =
                       mergeData (deleted_habits w1) (clockFetched w1) localData remoteData;
                     w2 = w1 \<lparr> deleted_habits := st' \<rparr>
                 in case saveBoth w2 mergedData of
                      (w4, Inl e) \<Rightarrow> syncCatch w4 e
                    | (w4, Inr u) \<Rightarrow>
                        let now = clockSaved w4;
                            w5 = w4 \<lparr> syncState := (syncState w4) \<lparr> status := Success,
                                     lastSyncTime := Some now, pendingChanges := False,
                                     conflictCount := 0 \<rparr> \<rparr>;
                            w6 = saveSyncState w5
                        in (w6, Inr \<lparr> success = True, conflicts = [], lastSyncTime_r = now,
                                     syncedRecords = length (habits mergedData),
                                     error_r = None \<rparr>))"

section \<open>Resolving conflicts (SyncManager.resolveConflicts)\<close>

definition mergeHabitItems :: "timestamp \<Rightarrow> HabitItem \<Rightarrow> HabitItem \<Rightarrow> HabitItem" where
  "mergeHabitItems now l r =
     (let localTime = habitTime l; remoteTime = habitTime r;
          newer = (if localTime \<ge> remoteTime then l else r);
          older = (if localTime \<ge> remoteTime then r else l)
      in newer \<lparr> text_h := (if text_h newer \<noteq> [] then text_h newer else text_h older),
                 completed := completed newer, hidden := hidden newer,
                 updatedAt := Some now \<rparr>)"

text \<open>The body of the loop over the conflicts and their resolutions.\<close>

definition applyResolution ::
  "timestamp \<Rightarrow> (string \<times> HabitItem) list \<Rightarrow> ConflictInfo \<times> ConflictResolution \<Rightarrow>
   (string \<times> HabitItem) list" where
  "applyResolution now resolvedHabits cr =
     (let conflict = fst cr; resolution = snd cr in
      case resolution of
        UseLocal \<Rightarrow> resolvedHabits
      | UseRemote \<Rightarrow>
          (case remote_c conflict of
             Some rh \<Rightarrow> Map_set resolvedHabits (id_c conflict) rh
           | None \<Rightarrow> Map_delete resolvedHabits (id_c conflict))
      | UseMerge \<Rightarrow>
          (case (local_c conflict, remote_c conflict) of
             (Some lh, Some rh) \<Rightarrow>
               Map_set resolvedHabits (id_c conflict) (mergeHabitItems now lh rh)
           | _ \<Rightarrow> resolvedHabits)
      | UseManual \<Rightarrow> resolvedHabits)"

text \<open>
  The map \<^verbatim>\<open>resolvedHabits\<close> as the loop leaves it. It is built, and the resolved
  snapshot is stamped, after the two reads.
\<close>

definition resolvedHabits ::
  "World \<Rightarrow> ConflictInfo list \<Rightarrow> ConflictResolution list \<Rightarrow> (string \<times> HabitItem) list" where
  "resolvedHabits w cs rs =
     foldl (applyResolution (clockFetched w)) (habitMap (getLocalData w)) (zip cs rs)"


section \<open>Text encoding (lib/github-client.ts, lib/encoding-utils.ts)\<close>

text \<open>
  A JavaScript string is a sequence of 16-bit code units and a \<^verbatim>\<open>Uint8Array\<close> a
  sequence of bytes. The repository's functions are compositions of platform functions:
  \<^verbatim>\<open>TextEncoder\<close>, \<^verbatim>\<open>TextDecoder\<close>, \<^verbatim>\<open>btoa\<close>, \<^verbatim>\<open>atob\<close>, \<^verbatim>\<open>String.fromCharCode\<close>
  and \<^verbatim>\<open>charCodeAt\<close>. These are modelled after their standards (the WHATWG
  Encoding and HTML standards, Web IDL and RFC 4648), with the arithmetic on natural
  numbers.
\<close>

type_synonym jsstring = "16 word list"
type_synonym bytes = "8 word list"

subsection \<open>UTF-16 code units and scalar values\<close>

definition isLeadSurrogate :: "16 word \<Rightarrow> bool" where
  "isLeadSurrogate u \<longleftrightarrow> 0xD800 \<le> unat u \<and> unat u \<le> 0xDBFF"

definition isTrailSurrogate :: "16 word \<Rightarrow> bool" where
  "isTrailSurrogate u \<longleftrightarrow> 0xDC00 \<le> unat u \<and> unat u \<le> 0xDFFF"

text \<open>
  The conversion of a string to scalar values that \<^verbatim>\<open>TextEncoder.encode\<close> applies to
  its argument: a surrogate pair is one code point, a surrogate without its partner
  becomes U+FFFD.
\<close>

fun toScalarValues :: "jsstring \<Rightarrow> nat list" where
  "toScalarValues [] = []"
| "toScalarValues [c] =
     (if isLeadSurrogate c \<or> isTrailSurrogate c then [0xFFFD] else [unat c])"
| "toScalarValues (c # d # s) =
     (if isLeadSurrogate c then
        (if isTrailSurrogate d
         then (0x10000 + 0x400 * (unat c mod 0x400) + unat d mod 0x400) # toScalarValues s
         else 0xFFFD # toScalarValues (d # s))
      else if isTrailSurrogate c then 0xFFFD # toScalarValues (d # s)
      else unat c # toScalarValues (d # s))"

text \<open>The code units of a scalar value, as \<^verbatim>\<open>TextDecoder\<close> emits them.\<close>

definition fromScalarValue :: "nat \<Rightarrow> jsstring" where
  "fromScalarValue cp =
     (if cp < 0x10000 then [of_nat cp]
      else [of_nat (0xD800 + (cp - 0x10000) div 0x400),
            of_nat (0xDC00 + (cp - 0x10000) mod 0x400)])"

text \<open>A string without unpaired surrogates.\<close>

fun wellFormedUTF16 :: "jsstring \<Rightarrow> bool" where
  "wellFormedUTF16 [] = True"
| "wellFormedUTF16 [c] = (\<not> isLeadSurrogate c \<and> \<not> isTrailSurrogate c)"
| "wellFormedUTF16 (c # d # s) =
     (if isLeadSurrogate c then isTrailSurrogate d \<and> wellFormedUTF16 s
      else \<not> isTrailSurrogate c \<and> wellFormedUTF16 (d # s))"

definition isScalarValue :: "nat \<Rightarrow> bool" where
  "isScalarValue cp \<longleftrightarrow> cp < 0x110000 \<and> \<not> (0xD800 \<le> cp \<and> cp \<le> 0xDFFF)"

subsection \<open>UTF-8\<close>

definition utf8EncodeScalar :: "nat \<Rightarrow> nat list" where
  "utf8EncodeScalar cp =
     (if cp \<le> 0x7F then [cp]
      else if cp \<le> 0x7FF then [0xC0 + cp div 0x40, 0x80 + cp mod 0x40]
      else if cp \<le> 0xFFFF then
        [0xE0 + cp div 0x1000, 0x80 + (cp div 0x40) mod 0x40, 0x80 + cp mod 0x40]
      else
        [0xF0 + cp div 0x40000, 0x80 + (cp div 0x1000) mod 0x40,
         0x80 + (cp div 0x40) mod 0x40, 0x80 + cp mod 0x40])"

definition TextEncoder_encode :: "jsstring \<Rightarrow> bytes" where
  "TextEncoder_encode text = map of_nat (concat (map utf8EncodeScalar (toScalarValues text)))"

text \<open>
  The UTF-8 decoder of the Encoding standard, in replacement mode: a state of five
  numbers, read byte by byte. A byte that cannot continue the sequence under way yields
  U+FFFD and is read again in the initial state; so does the end of the input inside a
  sequence.
\<close>

record Utf8Decoder =
  codePoint :: nat
  bytesSeen :: nat
  bytesNeeded :: nat
  lowerBoundary :: nat
  upperBoundary :: nat

definition utf8Initial :: Utf8Decoder where
  "utf8Initial = \<lparr> codePoint = 0, bytesSeen = 0, bytesNeeded = 0,
     lowerBoundary = 0x80, upperBoundary = 0xBF \<rparr>"

function utf8Decode :: "Utf8Decoder \<Rightarrow> nat list \<Rightarrow> nat list" where
  "utf8Decode st [] = (if bytesNeeded st \<noteq> 0 then [0xFFFD] else [])"
| "utf8Decode st (b # bs) =
     (if bytesNeeded st = 0 then
        (if b \<le> 0x7F then b # utf8Decode utf8Initial bs
         else if 0xC2 \<le> b \<and> b \<le> 0xDF then
           utf8Decode (st \<lparr> bytesNeeded := 1, codePoint := b mod 0x20 \<rparr>) bs
         else if 0xE0 \<le> b \<and> b \<le> 0xEF then
           utf8Decode (st \<lparr> lowerBoundary := (if b = 0xE0 then 0xA0 else lowerBoundary st),
                            upperBoundary := (if b = 0xED then 0x9F else upperBoundary st),
                            bytesNeeded := 2, codePoint := b mod 0x10 \<rparr>) bs
         else if 0xF0 \<le> b \<and> b \<le> 0xF4 then
           utf8Decode (st \<lparr> lowerBoundary := (if b = 0xF0 then 0x90 else lowerBoundary st),
                            upperBoundary := (if b = 0xF4 then 0x8F else upperBoundary st),
                            bytesNeeded := 3, codePoint := b mod 0x8 \<rparr>) bs
         else 0xFFFD # utf8Decode utf8Initial bs)
      else if b < lowerBoundary st \<or> upperBoundary st < b then
        0xFFFD # utf8Decode utf8Initial (b # bs)
      else
        (let cp = codePoint st * 0x40 + b mod 0x40 in
         if bytesSeen st + 1 \<noteq> bytesNeeded st then
           utf8Decode (st \<lparr> lowerBoundary := 0x80, upperBoundary := 0xBF,
                            codePoint := cp, bytesSeen := bytesSeen st + 1 \<rparr>) bs
         else cp # utf8Decode utf8Initial bs))"
  by pat_completeness auto
termination
  by (relation "measure (\<lambda>(st, bs). 2 * length bs + (if bytesNeeded st = 0 then 0 else 1))")
     (auto simp: utf8Initial_def)

declare utf8Decode.simps [simp del]

text \<open>
  \<^verbatim>\<open>new TextDecoder('utf-8')\<close> has \<^verbatim>\<open>ignoreBOM\<close> false: a leading U+FEFF of the decoded
  text is dropped.
\<close>

definition stripBOM :: "nat list \<Rightarrow> nat list" where
  "stripBOM cps = (case cps of [] \<Rightarrow> [] | c # rest \<Rightarrow> if c = 0xFEFF then rest else cps)"

definition TextDecoder_decode :: "bytes \<Rightarrow> jsstring" where
  "TextDecoder_decode bs =
     concat (map fromScalarValue (stripBOM (utf8Decode utf8Initial (map unat bs))))"

subsection \<open>Base64\<close>

text \<open>The alphabet of RFC 4648, as character codes.\<close>

definition base64Char :: "nat \<Rightarrow> nat" where
  "base64Char v =
     (if v < 26 then 0x41 + v
      else if v < 52 then 0x61 + (v - 26)
      else if v < 62 then 0x30 + (v - 52)
      else if v = 62 then 0x2B
      else 0x2F)"

definition base64Index :: "nat \<Rightarrow> nat option" where
  "base64Index c =
     (if 0x41 \<le> c \<and> c \<le> 0x5A then Some (c - 0x41)
      else if 0x61 \<le> c \<and> c \<le> 0x7A then Some (c - 0x61 + 26)
      else if 0x30 \<le> c \<and> c \<le> 0x39 then Some (c - 0x30 + 52)
      else if c = 0x2B then Some 62
      else if c = 0x2F then Some 63
      else None)"

fun base64Encode :: "nat list \<Rightarrow> nat list" where
  "base64Encode [] = []"
| "base64Encode [a] =
     [base64Char (a div 4), base64Char ((a mod 4) * 16), 0x3D, 0x3D]"
| "base64Encode [a, b] =
     [base64Char (a div 4), base64Char ((a mod 4) * 16 + b div 16),
      base64Char ((b mod 16) * 4), 0x3D]"
| "base64Encode (a # b # c # bs) =
     [base64Char (a div 4), base64Char ((a mod 4) * 16 + b div 16),
      base64Char ((b mod 16) * 4 + c div 64), base64Char (c mod 64)] @ base64Encode bs"

text \<open>The sextets of the encoding, before they are turned into characters and padded.\<close>

fun base64Values :: "nat list \<Rightarrow> nat list" where
  "base64Values [] = []"
| "base64Values [a] = [a div 4, (a mod 4) * 16]"
| "base64Values [a, b] = [a div 4, (a mod 4) * 16 + b div 16, (b mod 16) * 4]"
| "base64Values (a # b # c # bs) =
     [a div 4, (a mod 4) * 16 + b div 16, (b mod 16) * 4 + c div 64, c mod 64] @ base64Values bs"

fun base64DecodeValues :: "nat list \<Rightarrow> nat list" where
  "base64DecodeValues (a # b # c # d # vs) =
     [a * 4 + b div 16, (b mod 16) * 16 + c div 4, (c mod 4) * 64 + d] @ base64DecodeValues vs"
| "base64DecodeValues [a, b, c] = [a * 4 + b div 16, (b mod 16) * 16 + c div 4]"
| "base64DecodeValues [a, b] = [a * 4 + b div 16]"
| "base64DecodeValues vs = []"

text \<open>
  \<^verbatim>\<open>btoa\<close> throws when a code unit is above 0xFF; \<^verbatim>\<open>atob\<close> is the forgiving Base64
  decoder: it drops ASCII whitespace, drops one or two padding characters when the length
  is a multiple of four, and throws on a length of 1 modulo 4 and on any other character.
  \<open>None\<close> stands for the exception.
\<close>

definition btoa :: "jsstring \<Rightarrow> jsstring option" where
  "btoa s =
     (if list_ex (\<lambda>u. unat u > 0xFF) s then None
      else Some (map of_nat (base64Encode (map unat s))))"

definition isAsciiWhitespace :: "nat \<Rightarrow> bool" where
  "isAsciiWhitespace c \<longleftrightarrow> c = 0x09 \<or> c = 0x0A \<or> c = 0x0C \<or> c = 0x0D \<or> c = 0x20"

definition stripPadding :: "nat list \<Rightarrow> nat list" where
  "stripPadding cs =
     (if cs \<noteq> [] \<and> last cs = 0x3D then
        (if butlast cs \<noteq> [] \<and> last (butlast cs) = 0x3D then butlast (butlast cs)
         else butlast cs)
      else cs)"

definition atob :: "jsstring \<Rightarrow> jsstring option" where
  "atob s =
     (let cs = filter (\<lambda>c. \<not> isAsciiWhitespace c) (map unat s);
          cs' = (if length cs mod 4 = 0 then stripPadding cs else cs)
      in if length cs' mod 4 = 1 then None
         else case those (map base64Index cs') of
                None \<Rightarrow> None
              | Some vs \<Rightarrow> Some (map of_nat (base64DecodeValues vs)))"

subsection \<open>The repository's functions\<close>

text \<open>
  \<^verbatim>\<open>String.fromCharCode\<close> on every byte, \<^verbatim>\<open>charCodeAt\<close> stored into a \<^verbatim>\<open>Uint8Array\<close>
  (which keeps the low eight bits) and \<^verbatim>\<open>replace(/\n/g, '')\<close>.
\<close>

definition String_fromCharCode :: "bytes \<Rightarrow> jsstring" where
  "String_fromCharCode bs = map ucast bs"

definition charCodesToUint8Array :: "jsstring \<Rightarrow> bytes" where
  "charCodesToUint8Array s = map ucast s"

definition removeNewlines :: "jsstring \<Rightarrow> jsstring" where
  "removeNewlines s = filter (\<lambda>u. u \<noteq> 0x0A) s"

text \<open>
  The fallbacks of lib/encoding-utils.ts. \<^verbatim>\<open>unescape(encodeURIComponent(text))\<close> is the
  binary string of the UTF-8 bytes of the text and throws on an unpaired surrogate;
  \<^verbatim>\<open>decodeURIComponent(escape(s))\<close> reads a binary string as UTF-8, keeps a leading
  U+FEFF, and throws when the bytes are not the UTF-8 encoding of anything.
\<close>

definition unescape_encodeURIComponent :: "jsstring \<Rightarrow> jsstring option" where
  "unescape_encodeURIComponent text =
     (if wellFormedUTF16 text then Some (String_fromCharCode (TextEncoder_encode text))
      else None)"

definition decodeURIComponent_escape :: "jsstring \<Rightarrow> jsstring option" where
  "decodeURIComponent_escape binaryString =
     (if list_ex (\<lambda>u. unat u > 0xFF) binaryString then None
      else
        let bs = map unat binaryString; cps = utf8Decode utf8Initial bs
        in if concat (map utf8EncodeScalar cps) = bs
           then Some (concat (map fromScalarValue cps)) else None)"

text \<open>
  GitHubClient.encodeToBase64 and decodeFromBase64: the \<^verbatim>\<open>catch\<close> branch repeats the
  computation of the \<^verbatim>\<open>try\<close> branch.
\<close>

definition encodeToBase64 :: "jsstring \<Rightarrow> jsstring option" where
  "encodeToBase64 text =
     (case btoa (String_fromCharCode (TextEncoder_encode text)) of
        Some r \<Rightarrow> Some r
      | None \<Rightarrow> btoa (String_fromCharCode (TextEncoder_encode text)))"

definition decodeFromBase64 :: "jsstring \<Rightarrow> jsstring option" where
  "decodeFromBase64 base64 =
     (case atob (removeNewlines base64) of
        Some binaryString \<Rightarrow> Some (TextDecoder_decode (charCodesToUint8Array binaryString))
      | None \<Rightarrow>
          (case atob (removeNewlines base64) of
             Some binaryString \<Rightarrow> Some (TextDecoder_decode (charCodesToUint8Array binaryString))
           | None \<Rightarrow> None))"

text \<open>
  encodeUTF8ToBase64 and decodeBase64ToUTF8 of lib/encoding-utils.ts. (The argument
  limit of the spread call \<^verbatim>\<open>String.fromCharCode(...utf8Bytes)\<close> depends on the engine
  and is left out.)
\<close>

definition encodeUTF8ToBase64 :: "jsstring \<Rightarrow> jsstring option" where
  "encodeUTF8ToBase64 text =
     (case btoa (String_fromCharCode (TextEncoder_encode text)) of
        Some r \<Rightarrow> Some r
      | None \<Rightarrow>
          (case unescape_encodeURIComponent text of
             Some binaryString \<Rightarrow> btoa binaryString
           | None \<Rightarrow> None))"

definition decodeBase64ToUTF8 :: "jsstring \<Rightarrow> jsstring option" where
  "decodeBase64ToUTF8 base64 =
     (case atob (removeNewlines base64) of
        Some binaryString \<Rightarrow> Some (TextDecoder_decode (charCodesToUint8Array binaryString))
      | None \<Rightarrow>
          (case atob base64 of
             Some binaryString \<Rightarrow> decodeURIComponent_escape binaryString
           | None \<Rightarrow> None))"

section \<open>Reference definitions and auxiliary notions\<close>

text \<open>
  The conflict verdict as the design states it, on the fields of the records: the texts
  differ, or the completion flags differ and the \<open>updatedAt\<close> timestamps (\<open>createdAt\<close>
  for a record that was never modified) are less than one hour, 3600000 milliseconds,
  apart.
\<close>

definition conflictReference :: "HabitItem \<Rightarrow> HabitItem \<Rightarrow> bool" where
  "conflictReference a b \<longleftrightarrow>
     text_h a \<noteq> text_h b \<or>
     (completed a \<noteq> completed b \<and>
      \<bar>(case updatedAt a of Some t \<Rightarrow> t | None \<Rightarrow> createdAt a) -
       (case updatedAt b of Some t \<Rightarrow> t | None \<Rightarrow> createdAt b)\<bar> < 3600000)"

text \<open>
  The settings overlay as the design states it: the remote keys first, the local keys
  overriding. \<^verbatim>\<open>AppSettings\<close> has the same four keys on both sides.
\<close>

definition settingsOverlay :: "AppSettings \<Rightarrow> AppSettings \<Rightarrow> AppSettings" where
  "settingsOverlay remoteSettings localSettings =
     remoteSettings \<lparr> theme := theme localSettings, autoSync := autoSync localSettings,
       syncInterval := syncInterval localSettings,
       encryptionEnabled := encryptionEnabled localSettings \<rparr>"

definition storedRecords :: "DeletedStore \<Rightarrow> DeletedRecord list" where
  "storedRecords st = (case st of None \<Rightarrow> [] | Some data \<Rightarrow> data)"

text \<open>
  The two operations that write the deletion store, \<open>markHabitAsDeleted\<close> and the merge
  pass, as events with their times; \<open>mergeOutputs\<close> runs a history of events from a store
  and collects the merged snapshots, \<open>mergeTimes\<close> the times of its merge passes.
\<close>

datatype StoreEvent =
    Deletion timestamp string
  | MergePass timestamp HabitsData HabitsData

fun mergeOutputs :: "DeletedStore \<Rightarrow> StoreEvent list \<Rightarrow> HabitsData list" where
  "mergeOutputs st [] = []"
| "mergeOutputs st (Deletion t j # es) = mergeOutputs (markHabitAsDeleted st t j) es"
| "mergeOutputs st (MergePass now l r # es) =
     fst (mergeData st now l r) # mergeOutputs (snd (mergeData st now l r)) es"

fun mergeTimes :: "StoreEvent list \<Rightarrow> timestamp list" where
  "mergeTimes [] = []"
| "mergeTimes (Deletion t j # es) = mergeTimes es"
| "mergeTimes (MergePass now l r # es) = now # mergeTimes es"



section \<open>Example data\<close>

definition exSettings :: AppSettings where
  "exSettings = \<lparr> theme = Light, autoSync = True, syncInterval = 300000,
     encryptionEnabled = True \<rparr>"

definition exHabit :: "string \<Rightarrow> string \<Rightarrow> timestamp \<Rightarrow> HabitItem" where
  "exHabit i t c = \<lparr> id_h = i, text_h = t, completed = False, hidden = False,
     createdAt = c, updatedAt = Some c \<rparr>"

definition exLocal :: HabitsData where
  "exLocal = \<lparr> version = ''1.0'', lastSync = 5000, lastResetDate = ''Mon Nov 02 2026'',
     habits = [exHabit ''a'' ''run'' 1000, exHabit ''b'' ''read'' 2000],
     settings = exSettings \<rparr>"

definition exRemote :: HabitsData where
  "exRemote = \<lparr> version = ''1.0'', lastSync = 6000, lastResetDate = ''Sun Nov 01 2026'',
     habits = [exHabit ''a'' ''run'' 1000, exHabit ''c'' ''walk'' 3000],
     settings = exSettings \<lparr> theme := Dark \<rparr> \<rparr>"

definition exRemoteEdited :: HabitsData where
  "exRemoteEdited = exRemote \<lparr> habits :=
     [exHabit ''a'' ''jog'' 1000, exHabit ''c'' ''walk'' 3000] \<rparr>"

definition exTodo :: "string \<Rightarrow> string \<Rightarrow> timestamp \<Rightarrow> Todo" where
  "exTodo i t c = \<lparr> id_t = i, text_t = t, completed_t = False, hidden_t = Some False,
     createdAt_t = c \<rparr>"

definition exWorld :: World where
  "exWorld = \<lparr> isAuthenticated = True, userAndRepo = True, isOnline = True,
     config = defaultConfig, clock = 9000, clockFetched = 9200, clockSaved = 9500,
     today = ''Mon Nov 02 2026'',
     dailyTodos = Some [exTodo ''a'' ''run'' 1000, exTodo ''b'' ''read'' 2000],
     lastResetDate_ls = Some ''Mon Nov 02 2026'', habits_data = None,
     deleted_habits = None, sync_state_ss = None, localFault = NoFault,
     remoteFile = Some (exRemote, 7), racing = [],
     fetchFails = False, shaReadFails = False, putFails = False,
     localSettlesFirst = True,
     syncState = \<lparr> status = Idle, lastSyncTime = None, lastError = None,
       pendingChanges = True, conflictCount = 0 \<rparr> \<rparr>"

text \<open>
  Another replica adds a record to the remote file, once, while the first write of the
  cycle is under way.
\<close>

definition exRemoteRaced :: HabitsData where
  "exRemoteRaced = exRemote \<lparr> habits :=
     [exHabit ''a'' ''run'' 1000, exHabit ''c'' ''walk'' 3000, exHabit ''d'' ''swim'' 4000] \<rparr>"

definition exWorldRaced :: World where
  "exWorldRaced = exWorld \<lparr> racing := [Some (exRemoteRaced, 8), None, None] \<rparr>"

text \<open>The remote copy of \<open>a\<close> has another text than the local one.\<close>

definition exWorldConflict :: World where
  "exWorldConflict = exWorld \<lparr> remoteFile := Some (exRemoteEdited, 7) \<rparr>"

text \<open>A target emoji, a space, a CJK character and an accented letter.\<close>

definition exText :: jsstring where
  "exText = [0xD83C, 0xDFAF, 0x20, 0x65E5, 0xE9]"





text \<open>The local write of the raced cycle fails as well.\<close>

definition exWorldRacedFull :: World where
  "exWorldRacedFull = exWorldRaced \<lparr> localFault := DailyTodosFails \<rparr>"

text \<open>
  Records that differ from \<open>exHabit ''a'' ''run'' 1000\<close> in the completion flag, modified
  one millisecond less than an hour and exactly an hour after it, and one that was never
  modified.
\<close>

definition exDoneSoon :: HabitItem where
  "exDoneSoon = (exHabit ''a'' ''run'' 1000) \<lparr> completed := True, updatedAt := Some 3600999 \<rparr>"

definition exDoneLate :: HabitItem where
  "exDoneLate = (exHabit ''a'' ''run'' 1000) \<lparr> completed := True, updatedAt := Some 3601000 \<rparr>"

definition exDoneUnmodified :: HabitItem where
  "exDoneUnmodified = (exHabit ''a'' ''run'' 1000) \<lparr> completed := True, updatedAt := None \<rparr>"

text \<open>A deletion store that lists \<open>a\<close>, and a snapshot in which the id \<open>a\<close> occurs twice.\<close>

definition exDeletedA :: DeletedStore where
  "exDeletedA = Some [\<lparr> id_d = ''a'', deletedAt = 8000 \<rparr>]"

definition exRepeated :: HabitsData where
  "exRepeated = exLocal \<lparr> habits := [exHabit ''a'' ''run'' 1000, exHabit ''a'' ''jog'' 1500] \<rparr>"

section \<open>Properties of the containers\<close>

lemma Map_set_keys: "fst ` set (Map_set m k v) = insert k (fst ` set m)"
  by (induction m) auto


lemma Map_set_distinct: "distinct (map fst m) \<Longrightarrow> distinct (map fst (Map_set m k v))"
proof (induction m)
  case Nil
  then show ?case by simp
next
  case (Cons e m)
  have "fst e \<notin> fst ` set (Map_set m k v)" if "fst e \<noteq> k"
    using Cons.prems that by (simp add: Map_set_keys)
  with Cons show ?case by auto
qed

lemma Map_set_fresh: "k \<notin> fst ` set m \<Longrightarrow> Map_set m k v = m @ [(k, v)]"
  by (induction m) auto

lemma foldl_Map_set_keys:
  "fst ` set (foldl (\<lambda>m e. Map_set m (fst e) (snd e)) m es) = fst ` set m \<union> fst ` set es"
proof (induction es arbitrary: m)
  case Nil
  then show ?case by simp
next
  case (Cons e es)
  show ?case by (simp add: Cons.IH Map_set_keys)
qed

lemma foldl_Map_set_distinct:
  "distinct (map fst m) \<Longrightarrow> distinct (map fst (foldl (\<lambda>m e. Map_set m (fst e) (snd e)) m es))"
  by (induction es arbitrary: m) (auto simp: Map_set_distinct)

lemma foldl_Map_set_entries:
  "set (foldl (\<lambda>m e. Map_set m (fst e) (snd e)) m es) \<subseteq> set m \<union> set es"
proof (induction es arbitrary: m)
  case Nil
  then show ?case by simp
next
  case (Cons e es)
  have "set (Map_set m (fst e) (snd e)) \<subseteq> insert e (set m)" for m
    by (induction m) auto
  with Cons[of "Map_set m (fst e) (snd e)"] show ?case by auto
qed

lemma foldl_Map_set_fresh:
  "distinct (map fst es) \<Longrightarrow> fst ` set m \<inter> fst ` set es = {} \<Longrightarrow>
   foldl (\<lambda>m e. Map_set m (fst e) (snd e)) m es = m @ es"
proof (induction es arbitrary: m)
  case Nil
  then show ?case by simp
next
  case (Cons e es)
  from Cons.prems have fresh: "fst e \<notin> fst ` set m" by auto
  have "foldl (\<lambda>m e. Map_set m (fst e) (snd e)) (m @ [e]) es = (m @ [e]) @ es"
    using Cons.prems by (intro Cons.IH) auto
  with fresh show ?case by (simp add: Map_set_fresh)
qed

lemma Map_new_keys: "set (Map_keys (Map_new es)) = fst ` set es"
  by (simp add: Map_keys_def Map_new_def foldl_Map_set_keys)

lemma Map_new_distinct: "distinct (Map_keys (Map_new es))"
  by (simp add: Map_keys_def Map_new_def foldl_Map_set_distinct)

lemma Map_new_entries: "Map_get (Map_new es) k = Some v \<Longrightarrow> (k, v) \<in> set es"
  using foldl_Map_set_entries[of "[]" es] by (auto simp: Map_get_def Map_new_def dest!: map_of_SomeD)

lemma Map_new_distinct_id: "distinct (map fst es) \<Longrightarrow> Map_new es = es"
  by (simp add: Map_new_def foldl_Map_set_fresh)

lemma Map_get_None_iff: "Map_get m k = None \<longleftrightarrow> k \<notin> set (Map_keys m)"
  by (simp add: Map_get_def Map_keys_def map_of_eq_None_iff)

lemma foldl_Set_add_set: "set (foldl Set_add s xs) = set s \<union> set xs"
  by (induction xs arbitrary: s) (auto simp: Set_add_def)

lemma foldl_Set_add_distinct: "distinct s \<Longrightarrow> distinct (foldl Set_add s xs)"
  by (induction xs arbitrary: s) (auto simp: Set_add_def)

lemma foldl_Set_add_subset: "set xs \<subseteq> set s \<Longrightarrow> foldl Set_add s xs = s"
  by (induction xs arbitrary: s) (auto simp: Set_add_def)

lemma foldl_Set_add_fresh:
  "distinct xs \<Longrightarrow> set s \<inter> set xs = {} \<Longrightarrow> foldl Set_add s xs = s @ xs"
proof (induction xs arbitrary: s)
  case Nil
  then show ?case by simp
next
  case (Cons x xs)
  have "foldl Set_add (s @ [x]) xs = (s @ [x]) @ xs"
    using Cons.prems by (intro Cons.IH) auto
  moreover have "Set_add s x = s @ [x]"
    using Cons.prems by (simp add: Set_add_def)
  ultimately show ?case by simp
qed

lemma Set_new_set: "set (Set_new xs) = set xs"
  by (simp add: Set_new_def foldl_Set_add_set)

lemma Set_new_self: "distinct ks \<Longrightarrow> Set_new (ks @ ks) = ks"
  by (simp add: Set_new_def foldl_Set_add_fresh foldl_Set_add_subset)

lemma habitMap_keys: "set (Map_keys (habitMap d)) = id_h ` set (habits d)"
  by (simp add: habitMap_def Map_new_keys image_image)

lemma habitMap_get_id: "Map_get (habitMap d) i = Some h \<Longrightarrow> id_h h = i \<and> h \<in> set (habits d)"
  by (auto simp: habitMap_def dest!: Map_new_entries)

lemma allIds_set: "set (allIds l r) = id_h ` set (habits l) \<union> id_h ` set (habits r)"
  by (simp add: allIds_def Set_new_set habitMap_keys)


section \<open>Conflict detection\<close>

lemma hasConflict_iff: "hasConflict l r \<longleftrightarrow> conflictReference l r"
  by (simp add: hasConflict_def conflictReference_def habitTime_def Let_def)

lemma map_filter_set: "set (List.map_filter f xs) = {y. \<exists>x\<in>set xs. f x = Some y}"
  by (induction xs) (auto simp: List.map_filter_simps split: option.splits)

lemma conflictAt_Some_id: "conflictAt l r i = Some c \<Longrightarrow> id_c c = i"
  by (auto simp: conflictAt_def split: option.splits if_splits)

lemma detectConflicts_ids:
  "i \<in> id_c ` set (detectConflicts l r) \<longleftrightarrow>
     (\<exists>lh rh. Map_get (habitMap l) i = Some lh \<and> Map_get (habitMap r) i = Some rh \<and>
        conflictReference lh rh)"
proof
  assume "i \<in> id_c ` set (detectConflicts l r)"
  then obtain c j where c: "conflictAt l r j = Some c" "id_c c = i"
    by (auto simp: detectConflicts_def map_filter_set)
  then have "j = i" by (auto dest: conflictAt_Some_id)
  with c show "\<exists>lh rh. Map_get (habitMap l) i = Some lh \<and> Map_get (habitMap r) i = Some rh \<and>
        conflictReference lh rh"
    by (auto simp: conflictAt_def hasConflict_iff split: option.splits if_splits)
next
  assume "\<exists>lh rh. Map_get (habitMap l) i = Some lh \<and> Map_get (habitMap r) i = Some rh \<and>
        conflictReference lh rh"
  then obtain lh rh where g: "Map_get (habitMap l) i = Some lh" "Map_get (habitMap r) i = Some rh"
    "conflictReference lh rh" by blast
  then have "i \<in> set (allIds l r)"
    using habitMap_get_id[OF g(1)] by (auto simp: allIds_set)
  moreover from g have "\<exists>c. conflictAt l r i = Some c \<and> id_c c = i"
    by (simp add: conflictAt_def hasConflict_iff)
  ultimately show "i \<in> id_c ` set (detectConflicts l r)"
    by (force simp: detectConflicts_def map_filter_set)
qed

lemma habitMap_distinct:
  "distinct (map id_h (habits d)) \<Longrightarrow> habitMap d = map (\<lambda>h. (id_h h, h)) (habits d)"
  by (simp add: habitMap_def Map_new_distinct_id comp_def)

lemma habitMap_get_distinct:
  assumes "distinct (map id_h (habits d))"
  shows "Map_get (habitMap d) i = Some h \<longleftrightarrow> h \<in> set (habits d) \<and> id_h h = i"
proof -
  have dist: "distinct (map fst (map (\<lambda>h. (id_h h, h)) (habits d)))"
    using assms by (simp add: comp_def)
  show ?thesis
    unfolding Map_get_def habitMap_distinct[OF assms] map_of_eq_Some_iff[OF dist] by auto
qed

lemma detectConflicts_ids_distinct:
  assumes "distinct (map id_h (habits d))" and "distinct (map id_h (habits e))"
  shows "i \<in> id_c ` set (detectConflicts d e) \<longleftrightarrow>
     (\<exists>lh\<in>set (habits d). \<exists>rh\<in>set (habits e).
        id_h lh = i \<and> id_h rh = i \<and> conflictReference lh rh)"
  unfolding detectConflicts_ids
  by (auto simp: habitMap_get_distinct[OF assms(1)] habitMap_get_distinct[OF assms(2)])

text \<open>
  C5: the verdict of \<open>hasConflict\<close> is the reference verdict: two records conflict
  exactly when their texts differ, or their completion flags differ and their
  \<open>updatedAt\<close> timestamps (\<open>createdAt\<close> where a record was never modified) are less than
  3600000 milliseconds apart. A difference in \<open>hidden\<close> alone is no conflict and a record
  does not conflict with itself. \<open>detectConflicts\<close> reports an id exactly when both
  snapshots hold it with a reference conflict; for snapshots without repeated ids, exactly
  when a record of the one and a record of the other have this id and are in reference
  conflict.
\<close>

theorem hasConflict_reference:
  "(hasConflict l r \<longleftrightarrow> conflictReference l r) \<and>
   \<not> hasConflict l (l\<lparr>hidden := b\<rparr>) \<and>
   \<not> hasConflict l l \<and>
   (i \<in> id_c ` set (detectConflicts d e) \<longleftrightarrow>
     (\<exists>lh rh. Map_get (habitMap d) i = Some lh \<and> Map_get (habitMap e) i = Some rh \<and>
        conflictReference lh rh)) \<and>
   (distinct (map id_h (habits d)) \<and> distinct (map id_h (habits e)) \<longrightarrow>
     (i \<in> id_c ` set (detectConflicts d e) \<longleftrightarrow>
       (\<exists>lh\<in>set (habits d). \<exists>rh\<in>set (habits e).
          id_h lh = i \<and> id_h rh = i \<and> conflictReference lh rh)))"
proof -
  have "\<not> conflictReference l (l\<lparr>hidden := b\<rparr>)" "\<not> conflictReference l l"
    by (simp_all add: conflictReference_def)
  then show ?thesis
    using detectConflicts_ids[of i d e] detectConflicts_ids_distinct[of d e i]
    by (simp add: hasConflict_iff)
qed

theorem hasConflict_reference_witness:
  "hasConflict (exHabit ''a'' ''run'' 1000) exDoneSoon \<and>
   \<not> hasConflict (exHabit ''a'' ''run'' 1000) exDoneLate \<and>
   hasConflict (exHabit ''a'' ''run'' 1000) exDoneUnmodified \<and>
   hasConflict (exHabit ''a'' ''run'' 1000) (exHabit ''a'' ''jog'' 90000000) \<and>
   \<not> hasConflict (exHabit ''a'' ''run'' 1000) ((exHabit ''a'' ''run'' 1000)\<lparr>hidden := True\<rparr>) \<and>
   ''a'' \<in> id_c ` set (detectConflicts exLocal exRemoteEdited) \<and>
   ''b'' \<notin> id_c ` set (detectConflicts exLocal exRemoteEdited)"
proof -
  let ?a = "exHabit ''a'' ''run'' 1000"
  have soon: "conflictReference ?a exDoneSoon"
    by (simp add: conflictReference_def exHabit_def exDoneSoon_def)
  have late: "\<not> conflictReference ?a exDoneLate"
    by (simp add: conflictReference_def exHabit_def exDoneLate_def)
  have unmodified: "conflictReference ?a exDoneUnmodified"
    by (simp add: conflictReference_def exHabit_def exDoneUnmodified_def)
  have other: "conflictReference ?a (exHabit ''a'' ''jog'' 90000000)"
    by (simp add: conflictReference_def exHabit_def)
  have dl: "distinct (map id_h (habits exLocal))" by code_simp
  have dr: "distinct (map id_h (habits exRemoteEdited))" by code_simp
  have a: "\<exists>lh\<in>set (habits exLocal). \<exists>rh\<in>set (habits exRemoteEdited).
      id_h lh = ''a'' \<and> id_h rh = ''a'' \<and> conflictReference lh rh"
    by (simp add: conflictReference_def exLocal_def exRemoteEdited_def exHabit_def)
  have b: "\<not> (\<exists>lh\<in>set (habits exLocal). \<exists>rh\<in>set (habits exRemoteEdited).
      id_h lh = ''b'' \<and> id_h rh = ''b'' \<and> conflictReference lh rh)"
    by (simp add: conflictReference_def exLocal_def exRemoteEdited_def exHabit_def)
  from hasConflict_reference[of ?a exDoneSoon True "''a''" exLocal exRemoteEdited]
    hasConflict_reference[of ?a exDoneLate True "''b''" exLocal exRemoteEdited]
    hasConflict_reference[of ?a exDoneUnmodified]
    hasConflict_reference[of ?a "exHabit ''a'' ''jog'' 90000000"]
    soon late unmodified other dl dr a b
  show ?thesis by blast
qed

section \<open>Merging\<close>

lemma mergeAt_Some_id: "mergeAt st now l r i = Some h \<Longrightarrow> id_h h = i"
  by (auto simp: mergeAt_def split: option.splits if_splits dest: habitMap_get_id)

lemma mergeAt_deleted: "i \<in> getDeletedHabitsIds st \<Longrightarrow> mergeAt st now l r i = None"
  by (simp add: mergeAt_def)

lemma wasRecentlyDeleted_deleted:
  "wasRecentlyDeleted st now i \<Longrightarrow> i \<in> getDeletedHabitsIds st"
  by (auto simp: wasRecentlyDeleted_def getDeletedHabitsIds_def find_Some_iff
      split: option.splits)

lemma mergeAt_emits:
  assumes "i \<notin> getDeletedHabitsIds st" "i \<in> set (allIds l r)"
  shows "\<exists>h. mergeAt st now l r i = Some h"
proof -
  from assms(2) have "Map_get (habitMap l) i \<noteq> None \<or> Map_get (habitMap r) i \<noteq> None"
    by (simp add: allIds_set Map_get_None_iff habitMap_keys)
  moreover have "\<not> wasRecentlyDeleted st now i"
    using assms(1) wasRecentlyDeleted_deleted by blast
  ultimately show ?thesis using assms(1)
    by (auto simp: mergeAt_def split: option.splits)
qed

lemma mergeData_habits_set:
  "set (habits (fst (mergeData st now l r))) =
     {h. \<exists>i\<in>set (allIds l r). mergeAt st now l r i = Some h}"
  by (simp add: mergeData_def Let_def map_filter_set)

lemma mergeData_ids:
  "id_h ` set (habits (fst (mergeData st now l r))) =
     (id_h ` set (habits l) \<union> id_h ` set (habits r)) - getDeletedHabitsIds st"
proof (intro set_eqI iffI)
  fix i assume "i \<in> id_h ` set (habits (fst (mergeData st now l r)))"
  then obtain h j where "j \<in> set (allIds l r)" "mergeAt st now l r j = Some h" "id_h h = i"
    by (auto simp: mergeData_habits_set)
  then show "i \<in> (id_h ` set (habits l) \<union> id_h ` set (habits r)) - getDeletedHabitsIds st"
    using mergeAt_Some_id[of st now l r j h] mergeAt_deleted[of j st now l r]
    by (auto simp: allIds_set)
next
  fix i assume a: "i \<in> (id_h ` set (habits l) \<union> id_h ` set (habits r)) - getDeletedHabitsIds st"
  then have "i \<in> set (allIds l r)" by (simp add: allIds_set)
  moreover from a this obtain h where "mergeAt st now l r i = Some h"
    using mergeAt_emits by blast
  ultimately show "i \<in> id_h ` set (habits (fst (mergeData st now l r)))"
    using mergeAt_Some_id[of st now l r i h] by (force simp: mergeData_habits_set)
qed

text \<open>
  C4: an id that the local snapshot holds, the remote snapshot does not hold and the
  deletion store does not list is the id of a record of the merged snapshot.
\<close>

theorem local_only_record_kept:
  "i \<in> id_h ` set (habits l) \<Longrightarrow> i \<notin> id_h ` set (habits r) \<Longrightarrow>
   i \<notin> getDeletedHabitsIds st \<Longrightarrow>
   i \<in> id_h ` set (habits (fst (mergeData st now l r)))"
  by (simp add: mergeData_ids)

theorem local_only_record_kept_witness:
  "''b'' \<in> id_h ` set (habits exLocal) \<and> ''b'' \<notin> id_h ` set (habits exRemote) \<and>
   ''b'' \<notin> getDeletedHabitsIds None \<and>
   ''b'' \<in> id_h ` set (habits (fst (mergeData None 9000 exLocal exRemote)))"
proof -
  have 1: "''b'' \<in> id_h ` set (habits exLocal)" by code_simp
  have 2: "''b'' \<notin> id_h ` set (habits exRemote)" by code_simp
  have 3: "''b'' \<notin> getDeletedHabitsIds None" by (simp add: getDeletedHabitsIds_def)
  from local_only_record_kept[OF 1 2 3, of 9000] 1 2 3 show ?thesis by blast
qed

section \<open>Deletion records\<close>

lemma getDeletedHabitsIds_stored: "getDeletedHabitsIds st = id_d ` set (storedRecords st)"
  by (simp add: getDeletedHabitsIds_def storedRecords_def split: option.splits)

lemma markHabitAsDeleted_stored:
  "storedRecords (markHabitAsDeleted st t0 i) =
     (if i \<in> id_d ` set (storedRecords st) then storedRecords st
      else storedRecords st @ [\<lparr> id_d = i, deletedAt = t0 \<rparr>])"
  by (auto simp: markHabitAsDeleted_def storedRecords_def Let_def find_None_iff
      split: option.splits)

lemma cleanup_stored:
  "storedRecords (cleanupDeletedIds st now) =
     filter (\<lambda>item. deletedAt item > now - sevenDays) (storedRecords st)"
proof (cases st)
  case None
  then show ?thesis by (simp add: cleanupDeletedIds_def storedRecords_def)
next
  case (Some data)
  have "filter P data = data" if "length (filter P data) = length data" for P
    using that by (metis filter_True length_filter_less less_irrefl_nat filter_id_conv) 
  from this[of "\<lambda>item. deletedAt item > now - sevenDays"] Some show ?thesis
    by (auto simp: cleanupDeletedIds_def storedRecords_def Let_def)
qed

lemma mergeData_store: "snd (mergeData st now l r) = cleanupDeletedIds st now"
  by (simp add: mergeData_def Let_def)

lemma markHabitAsDeleted_keeps:
  "d \<in> set (storedRecords st) \<Longrightarrow> d \<in> set (storedRecords (markHabitAsDeleted st t j))"
  by (simp add: markHabitAsDeleted_stored)

lemma mergeOutputs_suppress:
  "d \<in> set (storedRecords st) \<Longrightarrow> \<forall>now\<in>set (mergeTimes es). now - sevenDays < deletedAt d \<Longrightarrow>
   \<forall>m\<in>set (mergeOutputs st es). id_d d \<notin> id_h ` set (habits m)"
proof (induction st es rule: mergeOutputs.induct)
  case (1 st)
  then show ?case by simp
next
  case (2 st t j es)
  then show ?case by (simp add: markHabitAsDeleted_keeps)
next
  case (3 st now l r es)
  from "3.prems" have "id_d d \<in> getDeletedHabitsIds st"
    by (auto simp: getDeletedHabitsIds_stored)
  then have here: "id_d d \<notin> id_h ` set (habits (fst (mergeData st now l r)))"
    by (simp add: mergeData_ids)
  from "3.prems" have "d \<in> set (storedRecords (snd (mergeData st now l r)))"
    by (simp add: mergeData_store cleanup_stored)
  then have "\<forall>m\<in>set (mergeOutputs (snd (mergeData st now l r)) es).
      id_d d \<notin> id_h ` set (habits m)"
    using "3.prems"(2) by (intro "3.IH") auto
  with here show ?case by simp
qed

lemma markHabitAsDeleted_marks: "i \<in> getDeletedHabitsIds (markHabitAsDeleted st t0 i)"
  by (auto simp: getDeletedHabitsIds_stored markHabitAsDeleted_stored)

text \<open>
  C2: after \<open>markHabitAsDeleted\<close> the deletion store lists the id. Take any record of the
  store for that id and any later history of deletions and merge passes: if the record
  is younger than seven days at the time of every merge pass of the history, then no
  merged snapshot of the history holds a record with that id, whatever the local and
  remote snapshots of the passes hold.
\<close>

theorem tombstone_suppression:
  assumes "d \<in> set (storedRecords (markHabitAsDeleted st t0 i))" and "id_d d = i"
    and "\<forall>now\<in>set (mergeTimes es). now - sevenDays < deletedAt d"
  shows "i \<in> getDeletedHabitsIds (markHabitAsDeleted st t0 i) \<and>
         (\<forall>m\<in>set (mergeOutputs (markHabitAsDeleted st t0 i) es). i \<notin> id_h ` set (habits m))"
  using mergeOutputs_suppress[OF assms(1) assms(3)] assms(2) markHabitAsDeleted_marks[of i st t0]
  by simp

theorem tombstone_suppression_witness:
  "\<lparr>id_d = ''a'', deletedAt = 6000\<rparr> \<in> set (storedRecords (markHabitAsDeleted None 6000 ''a'')) \<and>
   ''a'' \<in> id_h ` set (habits exLocal) \<and>
   ''a'' \<notin> id_h ` set (habits (fst (mergeData (markHabitAsDeleted None 6000 ''a'') 7000 exLocal exRemote)))"
proof -
  let ?d = "\<lparr>id_d = ''a'', deletedAt = 6000\<rparr>"
  let ?es = "[MergePass 7000 exLocal exRemote, Deletion 7500 ''b'', MergePass 8000 exRemote exLocal]"
  have 1: "?d \<in> set (storedRecords (markHabitAsDeleted None 6000 ''a''))"
    by (simp add: markHabitAsDeleted_def storedRecords_def)
  have 2: "id_d ?d = ''a''" by simp
  have 3: "\<forall>now\<in>set (mergeTimes ?es). now - sevenDays < deletedAt ?d" by (simp add: sevenDays_def)
  have 4: "''a'' \<in> id_h ` set (habits exLocal)" by code_simp
  from tombstone_suppression[OF 1 2 3] 1 4 show ?thesis by simp
qed

text \<open>
  C3, as the claim states it, fails: the deleted ids are read before the loop and the
  expired records are removed after it, so the first pass after the expiry still leaves
  the id out although the local snapshot holds it.
\<close>

theorem expired_tombstone_counterexample:
  "deletedAt \<lparr>id_d = ''a'', deletedAt = 0\<rparr> \<le> 700000000 - sevenDays \<and>
   ''a'' \<in> id_h ` set (habits exLocal) \<and>
   ''a'' \<notin> id_h ` set (habits (fst (mergeData (Some [\<lparr>id_d = ''a'', deletedAt = 0\<rparr>])
      700000000 exLocal exRemote)))"
  by code_simp

text \<open>
  C3, amended: expired records are swept at the end of a merge pass, after its deletion
  lookups. When every record of the store for an id is older than seven days, the pass
  still leaves the id out if the store lists it, the store it leaves no longer lists the
  id, and the next pass has a record with that id whenever one of its two snapshots has.
\<close>

theorem expired_tombstone_swept_after_lookup:
  assumes "\<forall>d\<in>set (storedRecords st). id_d d = i \<longrightarrow> deletedAt d \<le> now - sevenDays"
  shows "(i \<in> getDeletedHabitsIds st \<longrightarrow> i \<notin> id_h ` set (habits (fst (mergeData st now l r)))) \<and>
         i \<notin> getDeletedHabitsIds (snd (mergeData st now l r)) \<and>
         (i \<in> id_h ` set (habits l') \<union> id_h ` set (habits r') \<longrightarrow>
            i \<in> id_h ` set (habits (fst (mergeData (snd (mergeData st now l r)) now' l' r'))))"
proof -
  have gone: "i \<notin> getDeletedHabitsIds (snd (mergeData st now l r))"
    using assms by (auto simp: getDeletedHabitsIds_stored mergeData_store cleanup_stored)
  then show ?thesis by (simp add: mergeData_ids)
qed

theorem expired_tombstone_swept_after_lookup_witness:
  "''a'' \<notin> getDeletedHabitsIds (snd (mergeData (Some [\<lparr>id_d = ''a'', deletedAt = 0\<rparr>])
      700000000 exLocal exRemote)) \<and>
   ''a'' \<in> id_h ` set (habits (fst (mergeData (snd (mergeData (Some [\<lparr>id_d = ''a'', deletedAt = 0\<rparr>])
      700000000 exLocal exRemote)) 700000001 exLocal exRemote)))"
proof -
  let ?st = "Some [\<lparr>id_d = ''a'', deletedAt = 0\<rparr>]"
  have 1: "\<forall>d\<in>set (storedRecords ?st). id_d d = ''a'' \<longrightarrow> deletedAt d \<le> 700000000 - sevenDays"
    by (simp add: storedRecords_def sevenDays_def)
  have 2: "''a'' \<in> id_h ` set (habits exLocal) \<union> id_h ` set (habits exRemote)" by code_simp
  from expired_tombstone_swept_after_lookup[OF 1, of exLocal exRemote exLocal exRemote 700000001] 2
  show ?thesis by blast
qed

section \<open>Metadata of the merged snapshot\<close>

text \<open>
  C7, as the claim states it, fails: the settings of the merged snapshot are not the
  overlay of the local settings over the remote ones. Here the remote snapshot has the
  newer \<open>lastSync\<close> and its theme wins over the local one.
\<close>

theorem settings_overlay_counterexample:
  "lastSync exRemote > lastSync exLocal \<and>
   settings (fst (mergeData None 9000 exLocal exRemote)) \<noteq>
     settingsOverlay (settings exRemote) (settings exLocal) \<and>
   theme (settings (fst (mergeData None 9000 exLocal exRemote))) = Dark \<and>
   theme (settings exLocal) = Light"
  by code_simp

text \<open>
  C7, amended: the version, the reset date and the settings of the merged snapshot are
  those of the snapshot with the newer \<open>lastSync\<close> (the local one on a tie), the
  settings as a whole and without any overlay, and its \<open>lastSync\<close> is the time of the
  merge.
\<close>

theorem mergeData_metadata:
  "version (fst (mergeData st now l r)) = version (if lastSync l \<ge> lastSync r then l else r) \<and>
   lastResetDate (fst (mergeData st now l r)) =
     lastResetDate (if lastSync l \<ge> lastSync r then l else r) \<and>
   settings (fst (mergeData st now l r)) = settings (if lastSync l \<ge> lastSync r then l else r) \<and>
   lastSync (fst (mergeData st now l r)) = now"
  by (simp add: mergeData_def Let_def)

theorem mergeData_metadata_witness:
  "settings (fst (mergeData None 9000 exLocal exRemote)) = settings exRemote \<and>
   lastResetDate (fst (mergeData None 9000 exLocal exRemote)) = lastResetDate exRemote \<and>
   lastSync (fst (mergeData None 9000 exLocal exRemote)) = 9000"
proof -
  have "\<not> lastSync exLocal \<ge> lastSync exRemote" by (simp add: exLocal_def exRemote_def)
  with mergeData_metadata[of None 9000 exLocal exRemote] show ?thesis by simp
qed

section \<open>Merging a snapshot with itself\<close>

lemma detectConflicts_self: "detectConflicts s s = []"
proof -
  have "conflictAt s s i = None" for i
    by (auto simp: conflictAt_def hasConflict_def split: option.splits)
  then show ?thesis
    by (simp add: detectConflicts_def List.map_filter_def)
qed

lemma map_filter_entries:
  "\<forall>e\<in>set m. f (fst e) = (if P (snd e) then Some (snd e) else None) \<Longrightarrow>
   List.map_filter f (map fst m) = filter P (map snd m)"
  by (induction m) (simp_all add: List.map_filter_simps)

lemma mergeData_self:
  "fst (mergeData st now s s) =
     s\<lparr>habits := sort_key createdAt
          (filter (\<lambda>h. id_h h \<notin> getDeletedHabitsIds st) (Map_values (habitMap s))),
       lastSync := now\<rparr>"
proof -
  let ?m = "habitMap s"
  have dist: "distinct (map fst ?m)"
    using Map_new_distinct[of "map (\<lambda>h. (id_h h, h)) (habits s)"]
    by (simp add: habitMap_def Map_keys_def)
  have ids: "allIds s s = map fst ?m"
    using dist by (simp add: allIds_def Map_keys_def Set_new_self)
  have "mergeAt st now s s (fst e) =
      (if id_h (snd e) \<notin> getDeletedHabitsIds st then Some (snd e) else None)"
    if "e \<in> set ?m" for e
  proof -
    from that have get: "Map_get ?m (fst e) = Some (snd e)"
      using dist by (simp add: Map_get_def)
    from habitMap_get_id[OF this] have "id_h (snd e) = fst e" by simp
    with get show ?thesis by (simp add: mergeAt_def)
  qed
  then have "List.map_filter (mergeAt st now s s) (map fst ?m) =
      filter (\<lambda>h. id_h h \<notin> getDeletedHabitsIds st) (map snd ?m)"
    by (intro map_filter_entries) simp
  then show ?thesis by (simp add: mergeData_def Let_def ids Map_values_def)
qed

text \<open>
  C9, as the claim states it, fails, and not only in \<open>lastSync\<close>: merged with itself, a
  snapshot loses the records whose ids the deletion store lists, and of two records that
  share an id it keeps the last one only. No conflict is detected in either case.
\<close>

theorem merge_self_counterexample:
  "detectConflicts exLocal exLocal = [] \<and>
   habits exLocal = [exHabit ''a'' ''run'' 1000, exHabit ''b'' ''read'' 2000] \<and>
   habits (fst (mergeData exDeletedA 9000 exLocal exLocal)) = [exHabit ''b'' ''read'' 2000] \<and>
   detectConflicts exRepeated exRepeated = [] \<and>
   habits exRepeated = [exHabit ''a'' ''run'' 1000, exHabit ''a'' ''jog'' 1500] \<and>
   habits (fst (mergeData None 9000 exRepeated exRepeated)) = [exHabit ''a'' ''jog'' 1500]"
  by code_simp

text \<open>
  C9, amended: merging a snapshot with itself detects no conflict, and the merged
  snapshot is that snapshot with \<open>lastSync\<close> set to the time of the merge and with these
  records: of the records that share an id the last one, at the place of the first; of
  these, the ones whose id the deletion store does not list; in the order of their
  creation times, records of one creation time in the order they had. When the ids of the
  snapshot are distinct, these are its own records without the listed ones, in the order
  of their creation times.
\<close>

theorem merge_self:
  "detectConflicts s s = [] \<and>
   fst (mergeData st now s s) =
     s\<lparr>habits := sort_key createdAt
          (filter (\<lambda>h. id_h h \<notin> getDeletedHabitsIds st) (Map_values (habitMap s))),
       lastSync := now\<rparr> \<and>
   (distinct (map id_h (habits s)) \<longrightarrow>
    fst (mergeData st now s s) =
      s\<lparr>habits := sort_key createdAt
           (filter (\<lambda>h. id_h h \<notin> getDeletedHabitsIds st) (habits s)),
        lastSync := now\<rparr>)"
proof -
  have "Map_values (habitMap s) = habits s" if "distinct (map id_h (habits s))"
    using that by (simp add: habitMap_distinct Map_values_def comp_def)
  then show ?thesis
    using detectConflicts_self[of s] mergeData_self[of st now s] by simp
qed

theorem merge_self_witness:
  "distinct (map id_h (habits exLocal)) \<and>
   detectConflicts exLocal exLocal = [] \<and>
   fst (mergeData None 9000 exLocal exLocal) = exLocal\<lparr>lastSync := 9000\<rparr> \<and>
   fst (mergeData exDeletedA 9000 exLocal exLocal) =
     exLocal\<lparr>habits := [exHabit ''b'' ''read'' 2000], lastSync := 9000\<rparr>"
proof -
  have 1: "distinct (map id_h (habits exLocal))" by code_simp
  have 2: "exLocal\<lparr>habits := sort_key createdAt
        (filter (\<lambda>h. id_h h \<notin> getDeletedHabitsIds None) (habits exLocal)),
      lastSync := 9000\<rparr> = exLocal\<lparr>lastSync := 9000\<rparr>"
    by code_simp
  have 3: "exLocal\<lparr>habits := sort_key createdAt
        (filter (\<lambda>h. id_h h \<notin> getDeletedHabitsIds exDeletedA) (habits exLocal)),
      lastSync := 9000\<rparr> = exLocal\<lparr>habits := [exHabit ''b'' ''read'' 2000], lastSync := 9000\<rparr>"
    by code_simp
  have 4: "Map_values (habitMap exLocal) = habits exLocal" by code_simp
  from merge_self[of exLocal None 9000] merge_self[of exLocal exDeletedA 9000] 1 2 3 4
  show ?thesis by simp
qed

section \<open>The sync cycle\<close>

lemma getLocalData_syncState [simp]: "getLocalData (w\<lparr>syncState := s\<rparr>) = getLocalData w"
  by (simp add: getLocalData_def getDefaultHabitsData_def split: option.splits)

lemma getRemoteData_syncState [simp]: "getRemoteData (w\<lparr>syncState := s\<rparr>) = getRemoteData w"
  by (simp add: getRemoteData_def getDefaultHabitsData_def split: option.splits)

text \<open>
  C6: when the cycle finds a conflict between the local and the remote snapshot it
  returns a result that is no success and carries the conflicts, sets the status to
  \<open>Conflict\<close>, and writes nothing: local storage, the deletion store, the stored sync
  state and the remote file are as before, and no request of the other replicas' script
  is consumed.
\<close>

theorem sync_conflict_no_write:
  assumes "isAuthenticated w" and "isOnline w"
    and "getRemoteData w = Inr remoteData"
    and "detectConflicts (getLocalData w) remoteData \<noteq> []"
  shows "\<exists>res. snd (sync w) = Inr res \<and> \<not> success res \<and>
           conflicts res = detectConflicts (getLocalData w) remoteData \<and>
           syncedRecords res = 0 \<and>
           status (syncState (fst (sync w))) = Conflict \<and>
           dailyTodos (fst (sync w)) = dailyTodos w \<and>
           lastResetDate_ls (fst (sync w)) = lastResetDate_ls w \<and>
           habits_data (fst (sync w)) = habits_data w \<and>
           deleted_habits (fst (sync w)) = deleted_habits w \<and>
           sync_state_ss (fst (sync w)) = sync_state_ss w \<and>
           remoteFile (fst (sync w)) = remoteFile w \<and>
           racing (fst (sync w)) = racing w"
  using assms by (simp add: sync_def Let_def)

theorem sync_conflict_no_write_witness:
  "detectConflicts (getLocalData exWorldConflict) exRemoteEdited \<noteq> [] \<and>
   status (syncState (fst (sync exWorldConflict))) = Conflict \<and>
   remoteFile (fst (sync exWorldConflict)) = remoteFile exWorldConflict \<and>
   dailyTodos (fst (sync exWorldConflict)) = dailyTodos exWorldConflict \<and>
   habits_data (fst (sync exWorldConflict)) = habits_data exWorldConflict"
proof -
  have 1: "isAuthenticated exWorldConflict" "isOnline exWorldConflict" by code_simp+
  have 2: "getRemoteData exWorldConflict = Inr exRemoteEdited" by code_simp
  have 3: "detectConflicts (getLocalData exWorldConflict) exRemoteEdited \<noteq> []" by code_simp
  from sync_conflict_no_write[OF 1 2 3] 3 show ?thesis by blast
qed

lemma saveLocalData_keeps:
  "isAuthenticated (fst (saveLocalData w d)) = isAuthenticated w"
  "userAndRepo (fst (saveLocalData w d)) = userAndRepo w"
  "remoteFile (fst (saveLocalData w d)) = remoteFile w"
  "racing (fst (saveLocalData w d)) = racing w"
  "shaReadFails (fst (saveLocalData w d)) = shaReadFails w"
  "putFails (fst (saveLocalData w d)) = putFails w"
  "syncState (fst (saveLocalData w d)) = syncState w"
  by (simp_all add: saveLocalData_def Let_def split: LocalFault.splits)

lemma saveLocalData_result:
  "snd (saveLocalData w d) =
     (if localFault w = NoFault then Inr ()
      else Inl (SyncError FailedToSaveLocalData StorageError))"
  by (simp add: saveLocalData_def Let_def split: LocalFault.splits)

lemma saveRemoteData_rejected:
  assumes "isAuthenticated w" and "userAndRepo w"
    and "racing w = Some f # rest"
    and "case remoteFile w of None \<Rightarrow> True | Some (d0, s0) \<Rightarrow> s0 \<noteq> snd f"
  shows "saveRemoteData w d =
     (w\<lparr>remoteFile := Some f, racing := rest\<rparr>,
      Inl (SyncError FailedToSaveRemoteData NetworkError))"
  using assms
  by (cases f) (auto simp: saveRemoteData_def Let_def remotePut_def split: option.splits)

lemma saveBoth_rejected:
  assumes "isAuthenticated w" and "userAndRepo w"
    and "racing w = Some f # rest"
    and "case remoteFile w of None \<Rightarrow> True | Some (d0, s0) \<Rightarrow> s0 \<noteq> snd f"
  shows "snd (saveBoth w d) =
           Inl (if localFault w = NoFault \<or> (localFault w = SecureStorageFails \<and> \<not> localSettlesFirst w)
                then SyncError FailedToSaveRemoteData NetworkError
                else SyncError FailedToSaveLocalData StorageError) \<and>
         racing (fst (saveBoth w d)) = rest \<and>
         remoteFile (fst (saveBoth w d)) = Some f \<and>
         syncState (fst (saveBoth w d)) = syncState w"
proof -
  obtain w1 localResult where l: "saveLocalData w d = (w1, localResult)"
    by (cases "saveLocalData w d")
  from saveLocalData_keeps[of w d] l
  have keeps: "isAuthenticated w1 = isAuthenticated w" "userAndRepo w1 = userAndRepo w"
    "remoteFile w1 = remoteFile w" "racing w1 = racing w" "syncState w1 = syncState w"
    by simp_all
  from saveLocalData_result[of w d] l
  have lr: "localResult = (if localFault w = NoFault then Inr ()
      else Inl (SyncError FailedToSaveLocalData StorageError))"
    by simp
  have r: "saveRemoteData w1 d =
      (w1\<lparr>remoteFile := Some f, racing := rest\<rparr>,
       Inl (SyncError FailedToSaveRemoteData NetworkError))"
    using assms by (intro saveRemoteData_rejected) (simp_all add: keeps)
  show ?thesis
    using assms(1,2) by (simp add: saveBoth_def l r lr keeps)
qed





text \<open>
  C1, as the claim states it, fails: with the configured budget of three attempts and
  a single racing write of another replica, the cycle makes one write attempt, which is
  rejected, and throws at once, with the type \<open>NetworkError\<close>. The remote file is the
  one the other replica wrote, and the rest of the script is untouched: a second cycle,
  had the first one retried, would have succeeded.
\<close>

theorem sync_retry_budget_counterexample:
  "retryAttempts (config exWorldRaced) = 3 \<and>
   snd (sync exWorldRaced) = Inl (SyncError FailedToSaveRemoteData NetworkError) \<and>
   racing (fst (sync exWorldRaced)) = [None, None] \<and>
   remoteFile (fst (sync exWorldRaced)) = Some (exRemoteRaced, 8) \<and>
   (case snd (sync (fst (sync exWorldRaced))) of Inl e \<Rightarrow> False | Inr res \<Rightarrow> success res)"
  by code_simp

text \<open>
  C1, amended: when another replica changes the remote file after the cycle has read
  the file's sha for its write, the write is rejected and the cycle does not retry,
  whatever \<open>retryAttempts\<close> is: after this single attempt the remote file is the one the
  other replica wrote, the status is \<open>Error\<close>, and the cycle throws a \<open>SyncError\<close>. Its
  type is \<open>NetworkError\<close>, from the rejected write. It is \<open>StorageError\<close> only when the
  local write of the cycle has failed too and its failure was the earlier one.
\<close>

theorem sync_rejected_write_no_retry:
  assumes "isAuthenticated w" and "isOnline w" and "userAndRepo w"
    and "getRemoteData w = Inr remoteData"
    and "detectConflicts (getLocalData w) remoteData = []"
    and "racing w = Some f # rest"
    and "case remoteFile w of None \<Rightarrow> True | Some (d0, s0) \<Rightarrow> s0 \<noteq> snd f"
  shows "snd (sync w) =
           Inl (if localFault w = NoFault \<or> (localFault w = SecureStorageFails \<and> \<not> localSettlesFirst w)
                then SyncError FailedToSaveRemoteData NetworkError
                else SyncError FailedToSaveLocalData StorageError) \<and>
         racing (fst (sync w)) = rest \<and>
         remoteFile (fst (sync w)) = Some f \<and>
         status (syncState (fst (sync w))) = Error"
proof -
  let ?w1 = "w\<lparr>syncState := (syncState w)\<lparr>status := Syncing, lastError := None\<rparr>\<rparr>"
  obtain mergedData st' where m:
    "mergeData (deleted_habits w) (clockFetched w) (getLocalData w) remoteData = (mergedData, st')"
    by (cases "mergeData (deleted_habits w) (clockFetched w) (getLocalData w) remoteData")
  let ?w2 = "?w1\<lparr>deleted_habits := st'\<rparr>"
  obtain w4 res where sb: "saveBoth ?w2 mergedData = (w4, res)"
    by (cases "saveBoth ?w2 mergedData")
  have "snd (saveBoth ?w2 mergedData) =
           Inl (if localFault ?w2 = NoFault \<or> (localFault ?w2 = SecureStorageFails \<and> \<not> localSettlesFirst ?w2)
                then SyncError FailedToSaveRemoteData NetworkError
                else SyncError FailedToSaveLocalData StorageError) \<and>
         racing (fst (saveBoth ?w2 mergedData)) = rest \<and>
         remoteFile (fst (saveBoth ?w2 mergedData)) = Some f \<and>
         syncState (fst (saveBoth ?w2 mergedData)) = syncState ?w2"
    using assms by (intro saveBoth_rejected) simp_all
  with sb have r: "res = Inl (if localFault w = NoFault \<or> (localFault w = SecureStorageFails \<and> \<not> localSettlesFirst w)
                then SyncError FailedToSaveRemoteData NetworkError
                else SyncError FailedToSaveLocalData StorageError)"
    and w4: "racing w4 = rest" "remoteFile w4 = Some f"
    by simp_all
  have "sync w = syncCatch w4 (if localFault w = NoFault \<or> (localFault w = SecureStorageFails \<and> \<not> localSettlesFirst w)
                then SyncError FailedToSaveRemoteData NetworkError
                else SyncError FailedToSaveLocalData StorageError)"
    using assms(1,2,4,5) m sb r by (simp add: sync_def Let_def)
  then show ?thesis using w4 by (simp add: syncCatch_def Let_def)
qed

theorem sync_rejected_write_no_retry_witness:
  "racing exWorldRaced = Some (exRemoteRaced, 8) # [None, None] \<and>
   snd (sync exWorldRaced) = Inl (SyncError FailedToSaveRemoteData NetworkError) \<and>
   racing (fst (sync exWorldRaced)) = [None, None] \<and>
   status (syncState (fst (sync exWorldRaced))) = Error \<and>
   snd (sync exWorldRacedFull) = Inl (SyncError FailedToSaveLocalData StorageError) \<and>
   racing (fst (sync exWorldRacedFull)) = [None, None] \<and>
   remoteFile (fst (sync exWorldRacedFull)) = Some (exRemoteRaced, 8)"
proof -
  have 1: "isAuthenticated exWorldRaced" "isOnline exWorldRaced" "userAndRepo exWorldRaced"
    by code_simp+
  have 2: "getRemoteData exWorldRaced = Inr exRemote" by code_simp
  have 3: "detectConflicts (getLocalData exWorldRaced) exRemote = []" by code_simp
  have 4: "racing exWorldRaced = Some (exRemoteRaced, 8) # [None, None]" by code_simp
  have 5: "case remoteFile exWorldRaced of None \<Rightarrow> True
           | Some (d0, s0) \<Rightarrow> s0 \<noteq> snd (exRemoteRaced, 8::nat)"
    by code_simp
  have 6: "localFault exWorldRaced = NoFault" by code_simp
  have full1: "isAuthenticated exWorldRacedFull" "isOnline exWorldRacedFull"
    "userAndRepo exWorldRacedFull"
    by code_simp+
  have full2: "getRemoteData exWorldRacedFull = Inr exRemote" by code_simp
  have full3: "detectConflicts (getLocalData exWorldRacedFull) exRemote = []" by code_simp
  have full4: "racing exWorldRacedFull = Some (exRemoteRaced, 8) # [None, None]" by code_simp
  have full5: "case remoteFile exWorldRacedFull of None \<Rightarrow> True
           | Some (d0, s0) \<Rightarrow> s0 \<noteq> snd (exRemoteRaced, 8::nat)"
    by code_simp
  have full6: "localFault exWorldRacedFull = DailyTodosFails" by code_simp
  from sync_rejected_write_no_retry[OF 1 2 3 4 5]
    sync_rejected_write_no_retry[OF full1 full2 full3 full4 full5] 4 6 full6
  show ?thesis by simp
qed

section \<open>Resolving conflicts\<close>






















section \<open>Base64 decoding inverts Base64 encoding\<close>

lemma base64Index_Char: "v < 64 \<Longrightarrow> base64Index (base64Char v) = Some v"
  by (auto simp: base64Char_def base64Index_def)

lemma base64Char_range: "v < 64 \<Longrightarrow> base64Char v < 128 \<and> base64Char v \<noteq> 0x3D \<and> \<not> isAsciiWhitespace (base64Char v)"
  by (auto simp: base64Char_def isAsciiWhitespace_def)

lemma base64Values_bound: "\<forall>b\<in>set bs. b < 256 \<Longrightarrow> \<forall>v\<in>set (base64Values bs). v < 64"
proof (induction bs rule: base64Values.induct)
  case 1
  then show ?case by simp
next
  case (2 a)
  then show ?case by auto
next
  case (3 a b)
  then show ?case by auto
next
  case (4 a b c bs)
  have "a div 4 < 64" "(a mod 4) * 16 + b div 16 < 64" "(b mod 16) * 4 + c div 64 < 64" "c mod 64 < 64"
    using 4(2) by auto
  with 4 show ?case by auto
qed

lemma base64Decode_Values: "\<forall>b\<in>set bs. b < 256 \<Longrightarrow> base64DecodeValues (base64Values bs) = bs"
proof (induction bs rule: base64Values.induct)
  case 1
  then show ?case by simp
next
  case (2 a)
  then show ?case by simp
next
  case (3 a b)
  then have "b div 16 < 16" by auto
  then have "a div 4 * 4 + ((a mod 4) * 16 + b div 16) div 16 = a"
    "(((a mod 4) * 16 + b div 16) mod 16) * 16 + ((b mod 16) * 4) div 4 = b"
    by auto
  then show ?case by simp
next
  case (4 a b c bs)
  have "c div 64 < 4" "b div 16 < 16" using 4(2) by auto
  then have "a div 4 * 4 + ((a mod 4) * 16 + b div 16) div 16 = a"
    "(((a mod 4) * 16 + b div 16) mod 16) * 16 + ((b mod 16) * 4 + c div 64) div 4 = b"
    "(((b mod 16) * 4 + c div 64) mod 4) * 64 + c mod 64 = c"
    by auto
  with 4 show ?case by simp
qed

lemma base64Values_length: "length (base64Values bs) mod 4 \<noteq> 1"
  by (induction bs rule: base64Values.induct) auto

lemma stripPadding_append:
  "length ys \<ge> 2 \<Longrightarrow> stripPadding (xs @ ys) = xs @ stripPadding ys"
proof -
  assume a: "length ys \<ge> 2"
  then have ys: "ys \<noteq> []" "butlast ys \<noteq> []" by (cases ys; cases "tl ys"; auto)+
  then show ?thesis
    by (simp add: stripPadding_def butlast_append last_append)
qed

lemma base64Encode_length: "bs \<noteq> [] \<Longrightarrow> length (base64Encode bs) \<ge> 4"
  by (induction bs rule: base64Encode.induct) auto

lemma base64Encode_length_mod: "length (base64Encode bs) mod 4 = 0"
  by (induction bs rule: base64Encode.induct) auto

lemma stripPadding_Encode:
  "\<forall>b\<in>set bs. b < 256 \<Longrightarrow> stripPadding (base64Encode bs) = map base64Char (base64Values bs)"
proof (induction bs rule: base64Encode.induct)
  case 1
  then show ?case by (simp add: stripPadding_def)
next
  case (2 a)
  then show ?case by (simp add: stripPadding_def)
next
  case (3 a b)
  have "(b mod 16) * 4 < 64" by auto
  then have "base64Char ((b mod 16) * 4) \<noteq> 0x3D" using base64Char_range by blast
  then show ?case by (simp add: stripPadding_def)
next
  case (4 a b c bs)
  show ?case
  proof (cases "bs = []")
    case True
    have "c mod 64 < 64" by auto
    then have "base64Char (c mod 64) \<noteq> 0x3D" using base64Char_range by blast
    with True show ?thesis by (simp add: stripPadding_def)
  next
    case False
    then have "length (base64Encode bs) \<ge> 2" using base64Encode_length[of bs] by simp
    then have "stripPadding (base64Encode (a # b # c # bs)) =
      [base64Char (a div 4), base64Char ((a mod 4) * 16 + b div 16),
       base64Char ((b mod 16) * 4 + c div 64), base64Char (c mod 64)] @ stripPadding (base64Encode bs)"
      using stripPadding_append[of "base64Encode bs" "[base64Char (a div 4),
        base64Char ((a mod 4) * 16 + b div 16), base64Char ((b mod 16) * 4 + c div 64),
        base64Char (c mod 64)]"] by simp
    with 4 show ?thesis by simp
  qed
qed

lemma base64Encode_chars:
  "\<forall>b\<in>set bs. b < 256 \<Longrightarrow> \<forall>c\<in>set (base64Encode bs). c < 128 \<and> \<not> isAsciiWhitespace c"
proof (induction bs rule: base64Encode.induct)
  case 1
  then show ?case by simp
next
  case (2 a)
  have "a div 4 < 64" "(a mod 4) * 16 < 64" using 2 by auto
  then show ?case using base64Char_range by (auto simp: isAsciiWhitespace_def)
next
  case (3 a b)
  have "a div 4 < 64" "(a mod 4) * 16 + b div 16 < 64" "(b mod 16) * 4 < 64" using 3 by auto
  then show ?case using base64Char_range by (auto simp: isAsciiWhitespace_def)
next
  case (4 a b c bs)
  have "a div 4 < 64" "(a mod 4) * 16 + b div 16 < 64" "(b mod 16) * 4 + c div 64 < 64" "c mod 64 < 64"
    using 4(2) by auto
  then show ?case using base64Char_range 4 by auto
qed

lemma those_map_Some: "\<forall>x\<in>set xs. f (g x) = Some x \<Longrightarrow> those (map f (map g xs)) = Some xs"
  by (induction xs) auto

lemma map_unat_of_nat16: "\<forall>c\<in>set cs. c < 65536 \<Longrightarrow> map unat (map of_nat cs :: 16 word list) = cs"
  by (induction cs) (auto simp: unat_of_nat)

lemma atob_btoa:
  assumes "\<forall>u\<in>set s. unat u \<le> 0xFF"
  shows "btoa s = Some (map of_nat (base64Encode (map unat s))) \<and>
         atob (map of_nat (base64Encode (map unat s))) = Some s"
proof -
  let ?bs = "map unat s"
  let ?cs = "base64Encode ?bs"
  have bs: "\<forall>b\<in>set ?bs. b < 256" using assms by auto
  have enc: "btoa s = Some (map of_nat ?cs)"
    using assms by (auto simp: btoa_def list_ex_iff)
  have chars: "\<forall>c\<in>set ?cs. c < 128 \<and> \<not> isAsciiWhitespace c" using bs by (rule base64Encode_chars)
  then have codes: "map unat (map (of_nat :: nat \<Rightarrow> 16 word) ?cs) = ?cs"
    by (intro map_unat_of_nat16) auto
  have filt: "filter (\<lambda>c. \<not> isAsciiWhitespace c) ?cs = ?cs"
    using chars by (simp add: filter_id_conv)
  have strip: "stripPadding ?cs = map base64Char (base64Values ?bs)"
    using bs by (rule stripPadding_Encode)
  have vals: "those (map base64Index (map base64Char (base64Values ?bs))) = Some (base64Values ?bs)"
    using base64Values_bound[OF bs] by (intro those_map_Some) (simp add: base64Index_Char)
  have dec: "base64DecodeValues (base64Values ?bs) = ?bs" using bs by (rule base64Decode_Values)
  have len: "length (map base64Char (base64Values ?bs)) mod 4 \<noteq> 1"
    using base64Values_length by simp
  have "atob (map of_nat ?cs) = Some (map of_nat ?bs)"
    unfolding atob_def codes filt
    using strip vals dec len by (simp add: base64Encode_length_mod Let_def)
  then show ?thesis using enc by (simp add: comp_def)
qed

section \<open>UTF-8 decoding inverts UTF-8 encoding\<close>

subsection \<open>Arithmetic of the byte layout\<close>

lemma mod_offset: "(a::nat) < n \<Longrightarrow> (k * n + a) mod n = a"
  by simp

lemma div_64_64: "(c::nat) div 0x1000 = c div 0x40 div 0x40"
  using div_mult2_eq[of c "0x40" "0x40"] by simp

lemma div_64_64_64: "(c::nat) div 0x40000 = c div 0x40 div 0x40 div 0x40"
  using div_mult2_eq[of c "0x1000" "0x40"] by (simp add: div_64_64)

lemma join2: "(c::nat) div 0x40 * 0x40 + c mod 0x40 = c"
  by simp

lemma join3: "((c::nat) div 0x1000 * 0x40 + c div 0x40 mod 0x40) * 0x40 + c mod 0x40 = c"
  by (simp add: div_64_64)

lemma join4:
  "(((c::nat) div 0x40000 * 0x40 + c div 0x1000 mod 0x40) * 0x40 + c div 0x40 mod 0x40) * 0x40
     + c mod 0x40 = c"
  by (simp add: div_64_64_64 div_64_64)

lemma lead2: fixes c :: nat assumes "c \<le> 0x7FF"
  shows "(0xC0 + c div 0x40) mod 0x20 = c div 0x40"
proof -
  have "c div 0x40 < 0x20" using assms by linarith
  from mod_offset[OF this, of 6] show ?thesis by simp
qed

lemma lead3: fixes c :: nat assumes "c \<le> 0xFFFF"
  shows "(0xE0 + c div 0x1000) mod 0x10 = c div 0x1000"
proof -
  have "c div 0x1000 < 0x10" using assms by linarith
  from mod_offset[OF this, of 14] show ?thesis by simp
qed

lemma lead4: fixes c :: nat assumes "c < 0x110000"
  shows "(0xF0 + c div 0x40000) mod 0x8 = c div 0x40000"
proof -
  have "c div 0x40000 < 0x8" using assms by linarith
  from mod_offset[OF this, of 30] show ?thesis by simp
qed

lemma cont: "(0x80 + (x::nat) mod 0x40) mod 0x40 = x mod 0x40"
  using mod_offset[of "x mod 0x40" "0x40" 2] by simp

lemma cont_range: "0x80 \<le> 0x80 + (x::nat) mod 0x40" "0x80 + (x::nat) mod 0x40 \<le> 0xBF"
  by simp_all

lemma second3_lo: fixes c :: nat assumes "0x800 \<le> c" "c div 0x1000 = 0"
  shows "0xA0 \<le> 0x80 + c div 0x40 mod 0x40"
proof -
  have "c < 0x1000" using assms(2) by linarith
  then have "c div 0x40 < 0x40" by linarith
  moreover have "0x20 \<le> c div 0x40" using assms(1) by linarith
  ultimately show ?thesis by simp
qed

lemma second3_hi: fixes c :: nat assumes "c < 0xD800" "c div 0x1000 = 0xD"
  shows "0x80 + c div 0x40 mod 0x40 \<le> 0x9F"
proof -
  have "0xD000 \<le> c" using assms(2) by linarith
  then have "0x340 \<le> c div 0x40" by linarith
  moreover have "c div 0x40 < 0x360" using assms(1) by linarith
  ultimately obtain k where k: "c div 0x40 = 0x340 + k" "k < 0x20"
    using le_Suc_ex[of "0x340" "c div 0x40"] by auto
  have "(0x340 + k) mod 0x40 = k" using mod_offset[of k "0x40" 13] k(2) by simp
  then show ?thesis using k by simp
qed

lemma second4_lo: fixes c :: nat assumes "0x10000 \<le> c" "c div 0x40000 = 0"
  shows "0x90 \<le> 0x80 + c div 0x1000 mod 0x40"
proof -
  have "c < 0x40000" using assms(2) by linarith
  then have "c div 0x1000 < 0x40" by linarith
  moreover have "0x10 \<le> c div 0x1000" using assms(1) by linarith
  ultimately show ?thesis by simp
qed

lemma second4_hi: fixes c :: nat assumes "c < 0x110000" "c div 0x40000 = 4"
  shows "0x80 + c div 0x1000 mod 0x40 \<le> 0x8F"
proof -
  have "0x100000 \<le> c" using assms(2) by linarith
  then have "0x100 \<le> c div 0x1000" by linarith
  moreover have "c div 0x1000 < 0x110" using assms(1) by linarith
  ultimately obtain k where k: "c div 0x1000 = 0x100 + k" "k < 0x10"
    using le_Suc_ex[of "0x100" "c div 0x1000"] by auto
  have "(0x100 + k) mod 0x40 = k" using mod_offset[of k "0x40" 4] k(2) by simp
  then show ?thesis using k by simp
qed

subsection \<open>Steps of the decoder\<close>

lemma utf8Decode_ascii:
  "b \<le> 0x7F \<Longrightarrow> utf8Decode utf8Initial (b # bs) = b # utf8Decode utf8Initial bs"
  by (simp add: utf8Decode.simps(2) utf8Initial_def)

lemma utf8Decode_lead2:
  "0xC2 \<le> b \<Longrightarrow> b \<le> 0xDF \<Longrightarrow>
   utf8Decode utf8Initial (b # bs) =
     utf8Decode \<lparr> codePoint = b mod 0x20, bytesSeen = 0, bytesNeeded = 1,
                  lowerBoundary = 0x80, upperBoundary = 0xBF \<rparr> bs"
  by (simp add: utf8Decode.simps(2) utf8Initial_def)

lemma utf8Decode_lead3:
  "0xE0 \<le> b \<Longrightarrow> b \<le> 0xEF \<Longrightarrow>
   utf8Decode utf8Initial (b # bs) =
     utf8Decode \<lparr> codePoint = b mod 0x10, bytesSeen = 0, bytesNeeded = 2,
                  lowerBoundary = (if b = 0xE0 then 0xA0 else 0x80),
                  upperBoundary = (if b = 0xED then 0x9F else 0xBF) \<rparr> bs"
  by (simp add: utf8Decode.simps(2) utf8Initial_def)

lemma utf8Decode_lead4:
  "0xF0 \<le> b \<Longrightarrow> b \<le> 0xF4 \<Longrightarrow>
   utf8Decode utf8Initial (b # bs) =
     utf8Decode \<lparr> codePoint = b mod 0x8, bytesSeen = 0, bytesNeeded = 3,
                  lowerBoundary = (if b = 0xF0 then 0x90 else 0x80),
                  upperBoundary = (if b = 0xF4 then 0x8F else 0xBF) \<rparr> bs"
  by (simp add: utf8Decode.simps(2) utf8Initial_def)

lemma utf8Decode_continue:
  "lo \<le> b \<Longrightarrow> b \<le> hi \<Longrightarrow> Suc seen \<noteq> needed \<Longrightarrow> needed \<noteq> 0 \<Longrightarrow>
   utf8Decode \<lparr> codePoint = cp, bytesSeen = seen, bytesNeeded = needed,
                lowerBoundary = lo, upperBoundary = hi \<rparr> (b # bs) =
     utf8Decode \<lparr> codePoint = cp * 0x40 + b mod 0x40, bytesSeen = Suc seen,
                  bytesNeeded = needed, lowerBoundary = 0x80, upperBoundary = 0xBF \<rparr> bs"
  by (simp add: utf8Decode.simps(2) Let_def)

lemma utf8Decode_finish:
  "lo \<le> b \<Longrightarrow> b \<le> hi \<Longrightarrow> Suc seen = needed \<Longrightarrow>
   utf8Decode \<lparr> codePoint = cp, bytesSeen = seen, bytesNeeded = needed,
                lowerBoundary = lo, upperBoundary = hi \<rparr> (b # bs) =
     (cp * 0x40 + b mod 0x40) # utf8Decode utf8Initial bs"
  by (auto simp: utf8Decode.simps(2) Let_def)

lemma utf8Decode_two:
  assumes "0xC2 \<le> b1" "b1 \<le> 0xDF" "0x80 \<le> b2" "b2 \<le> 0xBF"
  shows "utf8Decode utf8Initial (b1 # b2 # rest) =
           (b1 mod 0x20 * 0x40 + b2 mod 0x40) # utf8Decode utf8Initial rest"
proof -
  have "utf8Decode utf8Initial (b1 # b2 # rest) =
          utf8Decode \<lparr> codePoint = b1 mod 0x20, bytesSeen = 0, bytesNeeded = 1,
            lowerBoundary = 0x80, upperBoundary = 0xBF \<rparr> (b2 # rest)"
    using assms(1,2) by (rule utf8Decode_lead2)
  also have "\<dots> = (b1 mod 0x20 * 0x40 + b2 mod 0x40) # utf8Decode utf8Initial rest"
    using assms(3,4) by (rule utf8Decode_finish) simp
  finally show ?thesis .
qed

lemma utf8Decode_three:
  assumes "0xE0 \<le> b1" "b1 \<le> 0xEF"
    and "(if b1 = 0xE0 then 0xA0 else 0x80) \<le> b2" "b2 \<le> (if b1 = 0xED then 0x9F else 0xBF)"
    and "0x80 \<le> b3" "b3 \<le> 0xBF"
  shows "utf8Decode utf8Initial (b1 # b2 # b3 # rest) =
           ((b1 mod 0x10 * 0x40 + b2 mod 0x40) * 0x40 + b3 mod 0x40) # utf8Decode utf8Initial rest"
proof -
  have "utf8Decode utf8Initial (b1 # b2 # b3 # rest) =
          utf8Decode \<lparr> codePoint = b1 mod 0x10, bytesSeen = 0, bytesNeeded = 2,
            lowerBoundary = (if b1 = 0xE0 then 0xA0 else 0x80),
            upperBoundary = (if b1 = 0xED then 0x9F else 0xBF) \<rparr> (b2 # b3 # rest)"
    using assms(1,2) by (rule utf8Decode_lead3)
  also have "\<dots> = utf8Decode \<lparr> codePoint = b1 mod 0x10 * 0x40 + b2 mod 0x40, bytesSeen = Suc 0,
            bytesNeeded = 2, lowerBoundary = 0x80, upperBoundary = 0xBF \<rparr> (b3 # rest)"
    using assms(3,4) by (rule utf8Decode_continue) simp_all
  also have "\<dots> = ((b1 mod 0x10 * 0x40 + b2 mod 0x40) * 0x40 + b3 mod 0x40)
            # utf8Decode utf8Initial rest"
    using assms(5,6) by (rule utf8Decode_finish) simp
  finally show ?thesis .
qed

lemma utf8Decode_four:
  assumes "0xF0 \<le> b1" "b1 \<le> 0xF4"
    and "(if b1 = 0xF0 then 0x90 else 0x80) \<le> b2" "b2 \<le> (if b1 = 0xF4 then 0x8F else 0xBF)"
    and "0x80 \<le> b3" "b3 \<le> 0xBF" "0x80 \<le> b4" "b4 \<le> 0xBF"
  shows "utf8Decode utf8Initial (b1 # b2 # b3 # b4 # rest) =
           (((b1 mod 0x8 * 0x40 + b2 mod 0x40) * 0x40 + b3 mod 0x40) * 0x40 + b4 mod 0x40)
           # utf8Decode utf8Initial rest"
proof -
  have "utf8Decode utf8Initial (b1 # b2 # b3 # b4 # rest) =
          utf8Decode \<lparr> codePoint = b1 mod 0x8, bytesSeen = 0, bytesNeeded = 3,
            lowerBoundary = (if b1 = 0xF0 then 0x90 else 0x80),
            upperBoundary = (if b1 = 0xF4 then 0x8F else 0xBF) \<rparr> (b2 # b3 # b4 # rest)"
    using assms(1,2) by (rule utf8Decode_lead4)
  also have "\<dots> = utf8Decode \<lparr> codePoint = b1 mod 0x8 * 0x40 + b2 mod 0x40, bytesSeen = Suc 0,
            bytesNeeded = 3, lowerBoundary = 0x80, upperBoundary = 0xBF \<rparr> (b3 # b4 # rest)"
    using assms(3,4) by (rule utf8Decode_continue) simp_all
  also have "\<dots> = utf8Decode \<lparr> codePoint = (b1 mod 0x8 * 0x40 + b2 mod 0x40) * 0x40 + b3 mod 0x40,
            bytesSeen = Suc (Suc 0), bytesNeeded = 3, lowerBoundary = 0x80,
            upperBoundary = 0xBF \<rparr> (b4 # rest)"
    using assms(5,6) by (rule utf8Decode_continue) simp_all
  also have "\<dots> = (((b1 mod 0x8 * 0x40 + b2 mod 0x40) * 0x40 + b3 mod 0x40) * 0x40 + b4 mod 0x40)
            # utf8Decode utf8Initial rest"
    using assms(7,8) by (rule utf8Decode_finish) simp
  finally show ?thesis .
qed

subsection \<open>One scalar value, then a sequence\<close>

lemma utf8_roundtrip_one:
  assumes "isScalarValue c" and one: "c \<le> 0x7F"
  shows "utf8Decode utf8Initial (utf8EncodeScalar c @ rest) = c # utf8Decode utf8Initial rest"
proof -
  show ?thesis using one by (simp add: utf8EncodeScalar_def utf8Decode_ascii)
qed

lemma utf8_roundtrip_two:
  assumes "isScalarValue c" and two: "0x80 \<le> c" "c \<le> 0x7FF"
  shows "utf8Decode utf8Initial (utf8EncodeScalar c @ rest) = c # utf8Decode utf8Initial rest"
proof -
  define b1 where "b1 = 0xC0 + c div 0x40"
  define b2 where "b2 = 0x80 + c mod 0x40"
  have enc: "utf8EncodeScalar c = [b1, b2]"
    using two by (simp add: utf8EncodeScalar_def b1_def b2_def)
  have "2 \<le> c div 0x40" "c div 0x40 < 0x20" using two by linarith+
  then have r: "0xC2 \<le> b1" "b1 \<le> 0xDF" "0x80 \<le> b2" "b2 \<le> 0xBF"
    by (simp_all add: b1_def b2_def)
  have "b1 mod 0x20 = c div 0x40" "b2 mod 0x40 = c mod 0x40"
    using two by (simp_all add: b1_def b2_def lead2 cont)
  then have "b1 mod 0x20 * 0x40 + b2 mod 0x40 = c" by (simp only: join2)
  with utf8Decode_two[OF r, of rest] enc show ?thesis by simp
qed

lemma utf8_roundtrip_three:
  assumes "isScalarValue c" and three: "0x800 \<le> c" "c \<le> 0xFFFF"
  shows "utf8Decode utf8Initial (utf8EncodeScalar c @ rest) = c # utf8Decode utf8Initial rest"
proof -
  define b1 where "b1 = 0xE0 + c div 0x1000"
  define b2 where "b2 = 0x80 + (c div 0x40) mod 0x40"
  define b3 where "b3 = 0x80 + c mod 0x40"
  have enc: "utf8EncodeScalar c = [b1, b2, b3]"
    using three by (simp add: utf8EncodeScalar_def b1_def b2_def b3_def)
  have ns: "c < 0xD800 \<or> 0xDFFF < c" using assms by (auto simp: isScalarValue_def)
  have "c div 0x1000 < 0x10" using three by linarith
  then have r1: "0xE0 \<le> b1" "b1 \<le> 0xEF" by (simp_all add: b1_def)
  have r3: "0x80 \<le> b3" "b3 \<le> 0xBF" by (simp_all add: b3_def)
  have lo: "(if b1 = 0xE0 then 0xA0 else 0x80) \<le> b2"
    using three second3_lo[of c] by (simp add: b1_def b2_def)
  have "c < 0xD800" if "c div 0x1000 = 0xD"
    using that ns by linarith
  moreover have "c div 0x40 mod 0x40 \<le> 0x3F"
    using mod_less_divisor[of "0x40" "c div 0x40"] by linarith
  ultimately have hi: "b2 \<le> (if b1 = 0xED then 0x9F else 0xBF)"
    using second3_hi[of c] by (simp add: b1_def b2_def)
  have "b1 mod 0x10 = c div 0x1000" "b2 mod 0x40 = (c div 0x40) mod 0x40" "b3 mod 0x40 = c mod 0x40"
    using three by (simp_all add: b1_def b2_def b3_def lead3 cont)
  then have "(b1 mod 0x10 * 0x40 + b2 mod 0x40) * 0x40 + b3 mod 0x40 = c"
    by (simp only: join3)
  with utf8Decode_three[OF r1 lo hi r3, of rest] enc show ?thesis by simp
qed

lemma utf8_roundtrip_four:
  assumes "isScalarValue c" and four: "0x10000 \<le> c"
  shows "utf8Decode utf8Initial (utf8EncodeScalar c @ rest) = c # utf8Decode utf8Initial rest"
proof -
  have top: "c < 0x110000" using assms by (simp add: isScalarValue_def)
  define b1 where "b1 = 0xF0 + c div 0x40000"
  define b2 where "b2 = 0x80 + (c div 0x1000) mod 0x40"
  define b3 where "b3 = 0x80 + (c div 0x40) mod 0x40"
  define b4 where "b4 = 0x80 + c mod 0x40"
  have enc: "utf8EncodeScalar c = [b1, b2, b3, b4]"
    using four by (simp add: utf8EncodeScalar_def b1_def b2_def b3_def b4_def)
  have "c div 0x40000 < 0x5" using top by linarith
  then have r1: "0xF0 \<le> b1" "b1 \<le> 0xF4" by (simp_all add: b1_def)
  have r3: "0x80 \<le> b3" "b3 \<le> 0xBF" "0x80 \<le> b4" "b4 \<le> 0xBF"
    by (simp_all add: b3_def b4_def)
  have lo: "(if b1 = 0xF0 then 0x90 else 0x80) \<le> b2"
    using four second4_lo[of c] by (simp add: b1_def b2_def)
  have "c div 0x1000 mod 0x40 \<le> 0x3F"
    using mod_less_divisor[of "0x40" "c div 0x1000"] by linarith
  then have hi: "b2 \<le> (if b1 = 0xF4 then 0x8F else 0xBF)"
    using top second4_hi[of c] by (simp add: b1_def b2_def)
  have "b1 mod 0x8 = c div 0x40000" "b2 mod 0x40 = (c div 0x1000) mod 0x40"
    "b3 mod 0x40 = (c div 0x40) mod 0x40" "b4 mod 0x40 = c mod 0x40"
    using top by (simp_all add: b1_def b2_def b3_def b4_def lead4 cont)
  then have "((b1 mod 0x8 * 0x40 + b2 mod 0x40) * 0x40 + b3 mod 0x40) * 0x40 + b4 mod 0x40 = c"
    by (simp only: join4)
  with utf8Decode_four[OF r1 lo hi r3, of rest] enc show ?thesis by simp
qed

lemma utf8_scalar_roundtrip:
  assumes "isScalarValue c"
  shows "utf8Decode utf8Initial (utf8EncodeScalar c @ rest) = c # utf8Decode utf8Initial rest"
proof -
  consider (one) "c \<le> 0x7F" | (two) "0x80 \<le> c" "c \<le> 0x7FF"
    | (three) "0x800 \<le> c" "c \<le> 0xFFFF" | (four) "0x10000 \<le> c"
    by linarith
  then show ?thesis
    using assms by cases (simp_all add: utf8_roundtrip_one utf8_roundtrip_two
      utf8_roundtrip_three utf8_roundtrip_four)
qed

lemma utf8EncodeScalar_bytes:
  assumes "isScalarValue c"
  shows "\<forall>b\<in>set (utf8EncodeScalar c). b < 256"
proof -
  have "c < 0x110000" using assms by (simp add: isScalarValue_def)
  then have "c div 0x40000 < 0x5" by linarith
  moreover have "c div 0x1000 < 0x10" if "c \<le> 0xFFFF" using that by linarith
  moreover have "c div 0x40 < 0x20" if "c \<le> 0x7FF" using that by linarith
  moreover have "c mod 0x40 < 0x40" "c div 0x40 mod 0x40 < 0x40" "c div 0x1000 mod 0x40 < 0x40"
    by simp_all
  ultimately show ?thesis by (auto simp: utf8EncodeScalar_def)
qed

lemma utf8_roundtrip:
  "\<forall>c\<in>set cps. isScalarValue c \<Longrightarrow>
   utf8Decode utf8Initial (concat (map utf8EncodeScalar cps)) = cps"
proof (induction cps)
  case Nil
  then show ?case by (simp add: utf8Decode.simps(1) utf8Initial_def)
next
  case (Cons c cps)
  then show ?case by (simp add: utf8_scalar_roundtrip)
qed

section \<open>Code units and scalar values\<close>

lemma unat16_bound: "unat (u :: 16 word) < 0x10000"
  using unsigned_less[of u, where 'a = nat] by simp

lemma surrogate_low_bits:
  assumes "0xD800 \<le> (x::nat)" "x \<le> 0xDBFF"
  shows "0xD800 + x mod 0x400 = x"
proof -
  obtain k where k: "x = 0xD800 + k" using assms(1) le_Suc_ex by blast
  with assms(2) have "k < 0x400" by linarith
  then have "(0xD800 + k) mod 0x400 = k" using mod_offset[of k "0x400" 54] by simp
  with k show ?thesis by simp
qed

lemma surrogate_low_bits':
  assumes "0xDC00 \<le> (x::nat)" "x \<le> 0xDFFF"
  shows "0xDC00 + x mod 0x400 = x"
proof -
  obtain k where k: "x = 0xDC00 + k" using assms(1) le_Suc_ex by blast
  with assms(2) have "k < 0x400" by linarith
  then have "(0xDC00 + k) mod 0x400 = k" using mod_offset[of k "0x400" 55] by simp
  with k show ?thesis by simp
qed

lemma pair_split:
  assumes "b < (0x400::nat)"
  shows "(0x400 * a + b) div 0x400 = a" "(0x400 * a + b) mod 0x400 = b"
  using assms by simp_all

lemma fromScalarValue_pair:
  assumes "isLeadSurrogate c" "isTrailSurrogate d"
  shows "fromScalarValue (0x10000 + 0x400 * (unat c mod 0x400) + unat d mod 0x400) = [c, d]"
proof -
  let ?a = "unat c mod 0x400" and ?b = "unat d mod 0x400"
  have b: "?b < 0x400" by simp
  have "0x10000 + 0x400 * ?a + ?b - 0x10000 = 0x400 * ?a + ?b" by simp
  then have dm: "(0x10000 + 0x400 * ?a + ?b - 0x10000) div 0x400 = ?a"
    "(0x10000 + 0x400 * ?a + ?b - 0x10000) mod 0x400 = ?b"
    using pair_split[OF b, of ?a] by simp_all
  have "0xD800 + ?a = unat c" "0xDC00 + ?b = unat d"
    using assms surrogate_low_bits[of "unat c"] surrogate_low_bits'[of "unat d"]
    by (simp_all add: isLeadSurrogate_def isTrailSurrogate_def)
  then have "of_nat (0xD800 + ?a) = c" "of_nat (0xDC00 + ?b) = d"
    by (simp_all only: of_nat_unat ucast_id)
  moreover have "\<not> 0x10000 + 0x400 * ?a + ?b < 0x10000" by simp
  ultimately show ?thesis
    unfolding fromScalarValue_def dm by (simp only: if_False)
qed

lemma fromScalarValue_unit: "fromScalarValue (unat (c :: 16 word)) = [c]"
  using unat16_bound[of c] by (simp add: fromScalarValue_def)

lemma utf16_roundtrip:
  "wellFormedUTF16 s \<Longrightarrow> concat (map fromScalarValue (toScalarValues s)) = s"
proof (induction s rule: toScalarValues.induct)
  case 1
  then show ?case by simp
next
  case (2 c)
  then show ?case by (simp add: fromScalarValue_unit)
next
  case (3 c d s)
  show ?case
  proof (cases "isLeadSurrogate c")
    case True
    with 3 show ?thesis by (simp add: fromScalarValue_pair)
  next
    case False
    with 3 show ?thesis by (simp add: fromScalarValue_unit)
  qed
qed

lemma pair_isScalarValue:
  "isScalarValue (0x10000 + 0x400 * (x mod 0x400) + y mod 0x400)"
proof -
  have "x mod 0x400 \<le> 0x3FF" "y mod 0x400 \<le> 0x3FF"
    using mod_less_divisor[of "0x400" x] mod_less_divisor[of "0x400" y] by linarith+
  then show ?thesis by (simp add: isScalarValue_def)
qed

lemma unit_isScalarValue:
  "\<not> isLeadSurrogate c \<Longrightarrow> \<not> isTrailSurrogate c \<Longrightarrow> isScalarValue (unat c)"
  using unat16_bound[of c]
  by (auto simp: isScalarValue_def isLeadSurrogate_def isTrailSurrogate_def)

lemma toScalarValues_valid: "\<forall>cp\<in>set (toScalarValues s). isScalarValue cp"
proof (induction s rule: toScalarValues.induct)
  case 1
  then show ?case by simp
next
  case (2 c)
  have "isScalarValue 0xFFFD" by (simp add: isScalarValue_def)
  then show ?case by (simp add: unit_isScalarValue)
next
  case (3 c d s)
  have "isScalarValue 0xFFFD" by (simp add: isScalarValue_def)
  with 3 show ?case by (simp add: unit_isScalarValue pair_isScalarValue)
qed

lemma toScalarValues_no_BOM:
  assumes "take 1 s \<noteq> [0xFEFF]"
  shows "stripBOM (toScalarValues s) = toScalarValues s"
proof (cases s rule: toScalarValues.cases)
  case 1
  then show ?thesis by (simp add: stripBOM_def)
next
  case (2 c)
  with assms have "unat c \<noteq> 0xFEFF"
    by (metis of_nat_unat ucast_id take_Suc_Cons take_0 One_nat_def of_nat_numeral)
  with 2 show ?thesis by (simp add: stripBOM_def)
next
  case (3 c d t)
  with assms have "unat c \<noteq> 0xFEFF"
    by (metis of_nat_unat ucast_id take_Suc_Cons take_0 One_nat_def of_nat_numeral)
  with 3 show ?thesis by (simp add: stripBOM_def)
qed

section \<open>Bytes and code units\<close>

lemma unat8_bound: "unat (w :: 8 word) < 256"
  using unsigned_less[of w, where 'a = nat] by simp

lemma unat_of_nat8: "b < 256 \<Longrightarrow> unat (of_nat b :: 8 word) = b"
  by (simp add: unat_of_nat)

lemma unat_ucast_8_16: "unat (ucast (w :: 8 word) :: 16 word) = unat w"
proof -
  have "unat w < 2 ^ 16" using unat8_bound[of w] by simp
  then show ?thesis by (simp add: unsigned_ucast_eq take_bit_nat_eq_self)
qed

lemma ucast_16_8_16: "(ucast (ucast (w :: 8 word) :: 16 word) :: 8 word) = w"
  by (simp add: ucast_up_ucast_id is_up)

lemma of_nat_16_neq: "c < 0x10000 \<Longrightarrow> c \<noteq> 0x0A \<Longrightarrow> (of_nat c :: 16 word) \<noteq> 0x0A"
proof
  assume a: "c < 0x10000" "c \<noteq> 0x0A" "(of_nat c :: 16 word) = 0x0A"
  then have "unat (of_nat c :: 16 word) = unat (0x0A :: 16 word)" by simp
  with a(1) have "c = 0x0A" by (simp add: unat_of_nat)
  with a(2) show False by simp
qed


lemma map_unat_of_nat8:
  "\<forall>b\<in>set bs. b < 256 \<Longrightarrow> map unat (map (of_nat :: nat \<Rightarrow> 8 word) bs) = bs"
  by (induction bs) (simp_all add: unat_of_nat8)

lemma encode_decode_core:
  assumes wf: "wellFormedUTF16 s" and bom: "take 1 s \<noteq> [0xFEFF]"
  shows "\<exists>e. btoa (String_fromCharCode (TextEncoder_encode s)) = Some e \<and>
             atob (removeNewlines e) = Some (String_fromCharCode (TextEncoder_encode s)) \<and>
             TextDecoder_decode (charCodesToUint8Array (String_fromCharCode (TextEncoder_encode s))) = s"
proof -
  let ?cps = "toScalarValues s"
  let ?bs = "concat (map utf8EncodeScalar ?cps)"
  let ?bin = "String_fromCharCode (TextEncoder_encode s)"
  have bs: "\<forall>b\<in>set ?bs. b < 256"
    using toScalarValues_valid[of s] utf8EncodeScalar_bytes by auto
  have bytes: "map unat (TextEncoder_encode s) = ?bs"
    unfolding TextEncoder_encode_def using bs by (rule map_unat_of_nat8)
  have bin: "map unat ?bin = ?bs"
    unfolding bytes[symmetric] by (simp add: String_fromCharCode_def comp_def unat_ucast_8_16)
  have "\<forall>u\<in>set ?bin. unat u \<le> 0xFF"
  proof
    fix u assume "u \<in> set ?bin"
    then have "unat u \<in> set (map unat ?bin)" by simp
    with bin bs show "unat u \<le> 0xFF" by fastforce
  qed
  from atob_btoa[OF this]
  have enc: "btoa ?bin = Some (map of_nat (base64Encode (map unat ?bin)))"
    and dec: "atob (map of_nat (base64Encode (map unat ?bin))) = Some ?bin" by simp_all
  let ?e = "map of_nat (base64Encode ?bs) :: jsstring"
  have "\<forall>c\<in>set (base64Encode ?bs). c < 128 \<and> \<not> isAsciiWhitespace c"
    using bs by (rule base64Encode_chars)
  then have "\<forall>c\<in>set (base64Encode ?bs). (of_nat c :: 16 word) \<noteq> 0x0A"
    using of_nat_16_neq by (fastforce simp: isAsciiWhitespace_def)
  then have nl: "removeNewlines ?e = ?e"
    by (simp add: removeNewlines_def filter_id_conv)
  have u8: "charCodesToUint8Array ?bin = TextEncoder_encode s"
    by (simp add: charCodesToUint8Array_def String_fromCharCode_def comp_def ucast_16_8_16)
  have "utf8Decode utf8Initial ?bs = ?cps"
    using toScalarValues_valid by (rule utf8_roundtrip)
  then have "TextDecoder_decode (TextEncoder_encode s) = s"
    using wf bom by (simp add: TextDecoder_decode_def bytes toScalarValues_no_BOM utf16_roundtrip)
  with enc dec nl u8 show ?thesis by (simp add: bin)
qed

subsection \<open>A string that begins with U+FEFF, and an unpaired surrogate\<close>

lemma bom_encode: "TextEncoder_encode [0xFEFF] = [0xEF, 0xBB, 0xBF]"
  by (simp add: TextEncoder_encode_def isLeadSurrogate_def isTrailSurrogate_def
      utf8EncodeScalar_def)

lemma bom_btoa: "btoa [0xEF, 0xBB, 0xBF] = Some [0x37, 0x37, 0x75, 0x2F]"
  by (simp add: btoa_def base64Char_def)

lemma bom_atob: "atob [0x37, 0x37, 0x75, 0x2F] = Some [0xEF, 0xBB, 0xBF]"
  by (simp add: atob_def isAsciiWhitespace_def stripPadding_def base64Index_def)

lemma bom_utf8Decode: "utf8Decode utf8Initial [0xEF, 0xBB, 0xBF] = [0xFEFF]"
  using utf8Decode_three[of "0xEF" "0xBB" "0xBF" "[]"]
  by (simp add: utf8Decode.simps(1) utf8Initial_def)

lemma bom_decode: "TextDecoder_decode [0xEF, 0xBB, 0xBF] = []"
  by (simp add: TextDecoder_decode_def bom_utf8Decode stripBOM_def)

lemma surrogate_encode: "TextEncoder_encode [0xD800] = [0xEF, 0xBF, 0xBD]"
  by (simp add: TextEncoder_encode_def isLeadSurrogate_def isTrailSurrogate_def
      utf8EncodeScalar_def)

lemma surrogate_btoa: "btoa [0xEF, 0xBF, 0xBD] = Some [0x37, 0x37, 0x2B, 0x39]"
  by (simp add: btoa_def base64Char_def)

lemma surrogate_atob: "atob [0x37, 0x37, 0x2B, 0x39] = Some [0xEF, 0xBF, 0xBD]"
  by (simp add: atob_def isAsciiWhitespace_def stripPadding_def base64Index_def)

lemma surrogate_utf8Decode: "utf8Decode utf8Initial [0xEF, 0xBF, 0xBD] = [0xFFFD]"
  using utf8Decode_three[of "0xEF" "0xBF" "0xBD" "[]"]
  by (simp add: utf8Decode.simps(1) utf8Initial_def)

lemma surrogate_decode: "TextDecoder_decode [0xEF, 0xBF, 0xBD] = [0xFFFD]"
  by (simp add: TextDecoder_decode_def surrogate_utf8Decode stripBOM_def fromScalarValue_def)

text \<open>
  C8, as the claim states it, fails. The string that consists of the one character
  U+FEFF is encoded to the Base64 text \<^verbatim>\<open>77u/\<close> (the bytes EF BB BF), and decoding that
  text gives the empty string, since the decoder drops a leading U+FEFF. The string that
  consists of the unpaired surrogate D800 is encoded to \<^verbatim>\<open>77+9\<close> (the bytes EF BF BD of
  U+FFFD, which the encoder puts in its place), and decoding gives U+FFFD.
\<close>

theorem base64_roundtrip_counterexample:
  "encodeToBase64 [0xFEFF] = Some [0x37, 0x37, 0x75, 0x2F] \<and>
   decodeFromBase64 [0x37, 0x37, 0x75, 0x2F] = Some [] \<and>
   encodeToBase64 [0xD800] = Some [0x37, 0x37, 0x2B, 0x39] \<and>
   decodeFromBase64 [0x37, 0x37, 0x2B, 0x39] = Some [0xFFFD]"
  by (simp add: encodeToBase64_def decodeFromBase64_def String_fromCharCode_def
      charCodesToUint8Array_def removeNewlines_def bom_encode bom_btoa bom_atob bom_decode
      surrogate_encode surrogate_btoa surrogate_atob surrogate_decode)

text \<open>
  C8, amended: for every string without unpaired surrogates that does not begin with
  U+FEFF, encoding succeeds and decoding the result gives the string back, for
  \<open>encodeToBase64\<close> with \<open>decodeFromBase64\<close> and for \<open>encodeUTF8ToBase64\<close> with
  \<open>decodeBase64ToUTF8\<close>.
\<close>

theorem base64_roundtrip:
  assumes "wellFormedUTF16 s" and "take 1 s \<noteq> [0xFEFF]"
  shows "(\<exists>e. encodeToBase64 s = Some e \<and> decodeFromBase64 e = Some s) \<and>
         (\<exists>e. encodeUTF8ToBase64 s = Some e \<and> decodeBase64ToUTF8 e = Some s)"
  using encode_decode_core[OF assms]
  by (auto simp: encodeToBase64_def decodeFromBase64_def encodeUTF8ToBase64_def
      decodeBase64ToUTF8_def)

theorem base64_roundtrip_witness:
  "wellFormedUTF16 exText \<and> take 1 exText \<noteq> [0xFEFF] \<and>
   Option.bind (encodeToBase64 exText) decodeFromBase64 = Some exText \<and>
   Option.bind (encodeUTF8ToBase64 exText) decodeBase64ToUTF8 = Some exText"
proof -
  have 1: "wellFormedUTF16 exText"
    by (simp add: exText_def isLeadSurrogate_def isTrailSurrogate_def)
  have 2: "take 1 exText \<noteq> [0xFEFF]" by (simp add: exText_def)
  from base64_roundtrip[OF 1 2] 1 2 show ?thesis by auto
qed

end
